theory Spec2Isabelle
  imports Complex_Main "HOL-Library.Word"
begin

section \<open>Pixel buffers\<close>

text \<open>
  The blur of the drop shadow works on the raw bytes of a single-channel image: a
  \<open>uint8*\<close> into a buffer, a width, a height and a line stride. The buffer is a list of
  bytes and a pointer into it is an offset. A read or a write outside the buffer is
  undefined in C++; here it is the result \<open>None\<close>.

  A pointer may lie before the buffer or behind it, so an offset is an integer. The
  stride \<open>delta\<close> is 1 or the line stride of the bitmap, a natural number.

  The dimensions \<open>width\<close>, \<open>height\<close>, the counters and the radius are C++ \<open>int\<close>s:
  integers here, and \<open>int32\<close> gives the value of an \<open>int\<close> expression from its
  mathematical value, with the wrap-around of two's complement. It is written where
  the source's arithmetic can leave the range of \<open>int\<close>: \<open>2 * radius\<close>,
  \<open>lineStride * y\<close>, \<open>--i\<close>, \<open>radius + 1\<close>, the differences \<open>offset.x - area.getX()\<close>
  and the sums inside the operations on rectangles. The counter \<open>num\<close> of a line only
  moves from the length of the line towards zero.
\<close>

definition int32 :: "int \<Rightarrow> int" where
  "int32 v = (v + 2147483648) mod 4294967296 - 2147483648"

type_synonym uint8 = "8 word"
type_synonym uint32 = "32 word"

definition peek :: "uint8 list \<Rightarrow> int \<Rightarrow> uint8 option" where
  "peek buf i = (if 0 \<le> i \<and> i < int (length buf) then Some (buf ! nat i) else None)"

definition poke :: "uint8 list \<Rightarrow> int \<Rightarrow> uint8 \<Rightarrow> uint8 list option" where
  "poke buf i v = (if 0 \<le> i \<and> i < int (length buf) then Some (buf[nat i := v]) else None)"

section \<open>blurDataTriplets\<close>

text \<open>
  The three averages of the source, each before its cast to \<open>uint8\<close>.
  \<open>(d[0] + d[delta] + 1) / 3\<close> is computed in \<open>int\<close> (both bytes are promoted);
  the two others have the \<open>uint32\<close> operand \<open>last\<close> and are computed in \<open>uint32\<close>.
\<close>

definition firstAverage :: "uint8 \<Rightarrow> uint8 \<Rightarrow> int" where
  "firstAverage a b = (uint a + uint b + 1) div 3"

definition middleAverage :: "uint32 \<Rightarrow> uint8 \<Rightarrow> uint8 \<Rightarrow> uint32" where
  "middleAverage lastV a b = (lastV + ucast a + ucast b + 1) div 3"

definition finalAverage :: "uint32 \<Rightarrow> uint8 \<Rightarrow> uint32" where
  "finalAverage lastV a = (lastV + ucast a + 1) div 3"

text \<open>
  The body of the \<open>do ... while (--num > 0)\<close> loop. It returns the buffer, the
  advanced pointer and \<open>last\<close>.
\<close>

function tripletLoop ::
  "uint8 list \<Rightarrow> int \<Rightarrow> int \<Rightarrow> nat \<Rightarrow> uint32 \<Rightarrow> (uint8 list \<times> int \<times> uint32) option" where
  "tripletLoop buf d num delta lastV =
     (case peek buf d of None \<Rightarrow> None | Some cur \<Rightarrow>
      (case peek buf (d + int delta) of None \<Rightarrow> None | Some nxt \<Rightarrow>
       (case poke buf d (ucast (middleAverage lastV cur nxt)) of None \<Rightarrow> None | Some buf' \<Rightarrow>
          if num - 1 > 0 then tripletLoop buf' (d + int delta) (num - 1) delta (ucast cur)
          else Some (buf', d + int delta, ucast cur))))"
  by pat_completeness auto
termination
  by (relation "measure (\<lambda>(buf, d, num, delta, lastV). nat num)") auto

declare tripletLoop.simps [simp del]

definition blurDataTriplets :: "uint8 list \<Rightarrow> int \<Rightarrow> int \<Rightarrow> nat \<Rightarrow> uint8 list option" where
  "blurDataTriplets buf d num delta =
     (case peek buf d of None \<Rightarrow> None | Some a \<Rightarrow>
      (case peek buf (d + int delta) of None \<Rightarrow> None | Some b \<Rightarrow>
       (case poke buf d (word_of_int (firstAverage a b)) of None \<Rightarrow> None | Some buf1 \<Rightarrow>
        (case tripletLoop buf1 (d + int delta) (num - 2) delta (ucast a) of None \<Rightarrow> None
         | Some (buf2, d2, lastV) \<Rightarrow>
          (case peek buf2 d2 of None \<Rightarrow> None | Some c \<Rightarrow>
             poke buf2 d2 (ucast (finalAverage lastV c)))))))"

section \<open>blurSingleChannelImage\<close>

text \<open>The inner loop \<open>for (int i = repetitions; --i >= 0;)\<close> around one line.\<close>

function repeatBlur ::
  "int \<Rightarrow> uint8 list \<Rightarrow> int \<Rightarrow> int \<Rightarrow> nat \<Rightarrow> uint8 list option" where
  "repeatBlur i buf d num delta =
     (if int32 (i - 1) \<ge> 0
      then (case blurDataTriplets buf d num delta of None \<Rightarrow> None
            | Some buf' \<Rightarrow> repeatBlur (int32 (i - 1)) buf' d num delta)
      else Some buf)"
  by pat_completeness auto
termination
  by (relation "measure (\<lambda>(i, buf, d, num, delta).
        if 0 \<le> i \<and> i < 2147483648 then nat i else 2147483649)")
     (auto simp: int32_def)

declare repeatBlur.simps [simp del]

text \<open>The loop over the rows, \<open>for (int y = 0; y < height; ++y)\<close>, from row \<open>y\<close> on.\<close>

function blurRows ::
  "uint8 list \<Rightarrow> int \<Rightarrow> int \<Rightarrow> nat \<Rightarrow> int \<Rightarrow> nat \<Rightarrow> uint8 list option" where
  "blurRows buf width height lineStride repetitions y =
     (if int y < height
      then (case repeatBlur repetitions buf (int32 (int lineStride * int y)) width 1 of None \<Rightarrow> None
            | Some buf' \<Rightarrow> blurRows buf' width height lineStride repetitions (y + 1))
      else Some buf)"
  by pat_completeness auto
termination
  by (relation "measure (\<lambda>(buf, width, height, lineStride, repetitions, y). nat (height - int y))") auto

declare blurRows.simps [simp del]

text \<open>The loop over the columns, \<open>for (int x = 0; x < width; ++x)\<close>, from column \<open>x\<close> on.\<close>

function blurColumns ::
  "uint8 list \<Rightarrow> int \<Rightarrow> int \<Rightarrow> nat \<Rightarrow> int \<Rightarrow> nat \<Rightarrow> uint8 list option" where
  "blurColumns buf width height lineStride repetitions x =
     (if int x < width
      then (case repeatBlur repetitions buf (int x) height lineStride of None \<Rightarrow> None
            | Some buf' \<Rightarrow> blurColumns buf' width height lineStride repetitions (x + 1))
      else Some buf)"
  by pat_completeness auto
termination
  by (relation "measure (\<lambda>(buf, width, height, lineStride, repetitions, x). nat (width - int x))") auto

declare blurColumns.simps [simp del]

definition blurSingleChannelImage ::
  "uint8 list \<Rightarrow> int \<Rightarrow> int \<Rightarrow> nat \<Rightarrow> int \<Rightarrow> uint8 list option" where
  "blurSingleChannelImage data width height lineStride repetitions =
     (case blurRows data width height lineStride repetitions 0 of None \<Rightarrow> None
      | Some buf \<Rightarrow> blurColumns buf width height lineStride repetitions 0)"

section \<open>The running average as a function of the line\<close>

text \<open>
  The line that \<open>blurDataTriplets\<close> is given: \<open>n\<close> bytes, \<open>delta\<close> apart, from
  offset \<open>d\<close>.
\<close>

definition lineOf :: "uint8 list \<Rightarrow> nat \<Rightarrow> nat \<Rightarrow> nat \<Rightarrow> uint8 list" where
  "lineOf buf d n delta = map (\<lambda>k. buf ! (d + k * delta)) [0..<n]"

text \<open>
  One pass of a 3-tap running average over a line, as a function of the line alone:
  every byte becomes the sum of itself and its two neighbours, plus one, divided by
  three, where a neighbour beyond either end of the line counts as zero.
\<close>

definition sample :: "uint8 list \<Rightarrow> int \<Rightarrow> nat" where
  "sample xs i = (if 0 \<le> i \<and> i < int (length xs) then unat (xs ! nat i) else 0)"

definition runningAverage3 :: "uint8 list \<Rightarrow> uint8 list" where
  "runningAverage3 xs =
     map (\<lambda>i. of_nat ((sample xs (int i - 1) + sample xs (int i) + sample xs (int i + 1) + 1) div 3))
       [0..<length xs]"

section \<open>The bitmap of an image\<close>

text \<open>
  \<open>Image::BitmapData\<close>, as far as the blur reads it: the bytes, the dimensions and
  the line stride.
\<close>

record bitmapData =
  data :: "uint8 list"
  width :: int
  height :: int
  lineStride :: nat

text \<open>
  The overload \<open>blurSingleChannelImage (Image&, int radius)\<close>, on the bitmap that its
  \<open>BitmapData bm (image, readWrite)\<close> gives access to.
\<close>

definition blurSingleChannelImage_bitmap :: "bitmapData \<Rightarrow> int \<Rightarrow> bitmapData option" where
  "blurSingleChannelImage_bitmap bm radius =
     (case blurSingleChannelImage (data bm) (width bm) (height bm) (lineStride bm)
             (int32 (2 * radius)) of
        None \<Rightarrow> None
      | Some d \<Rightarrow> Some (bm\<lparr>data := d\<rparr>))"

section \<open>The blur as the specification words it\<close>

text \<open>
  The pixels of a bitmap, row by row and column by column: row \<open>y\<close> starts at
  \<open>lineStride * y\<close>, column \<open>x\<close> at \<open>x\<close>.
\<close>

definition rowsOf :: "uint8 list \<Rightarrow> nat \<Rightarrow> nat \<Rightarrow> nat \<Rightarrow> uint8 list list" where
  "rowsOf buf w h stride = map (\<lambda>y. lineOf buf (stride * y) w 1) [0..<h]"

definition columnsOf :: "uint8 list \<Rightarrow> nat \<Rightarrow> nat \<Rightarrow> nat \<Rightarrow> uint8 list list" where
  "columnsOf buf w h stride = map (\<lambda>x. lineOf buf x h stride) [0..<w]"

text \<open>
  The separable blur of the specification, on the rows of pixels: one pass applies the
  3-tap running average to every row, or to every column; the blur of strength
  \<open>radius\<close> is \<open>2 * radius\<close> passes along the rows followed by \<open>2 * radius\<close> passes
  along the columns.
\<close>

definition rowPass :: "uint8 list list \<Rightarrow> uint8 list list" where
  "rowPass rows = map runningAverage3 rows"

definition columnPass :: "uint8 list list \<Rightarrow> uint8 list list" where
  "columnPass rows = transpose (map runningAverage3 (transpose rows))"

definition separableBlur :: "nat \<Rightarrow> uint8 list list \<Rightarrow> uint8 list list" where
  "separableBlur radius rows = (columnPass ^^ (2 * radius)) ((rowPass ^^ (2 * radius)) rows)"

section \<open>Floating point\<close>

text \<open>
  The \<open>float\<close> and \<open>double\<close> values of the source are binary floating-point numbers
  (IEEE 754 binary32 and binary64): a number of this kind is \<open>mantissa * 2 ^ exponent\<close>
  for two integers. The result of an operation is the exact result rounded to the
  nearest number with at most \<open>p\<close> significant bits, a tie going to the even
  mantissa; \<open>p\<close> is 24 for \<open>float\<close> and 53 for \<open>double\<close>. The range of the exponent
  is not modelled: no value of the source here is near the largest or the smallest
  float.
\<close>

record binary =
  mantissa :: int
  exponent :: int

text \<open>The number of bits by which a mantissa is longer than \<open>p\<close> bits.\<close>

function excessBits :: "nat \<Rightarrow> int \<Rightarrow> nat" where
  "excessBits p m = (if m < 2 ^ p then 0 else Suc (excessBits p (m div 2)))"
  by pat_completeness auto
termination
proof (relation "measure (\<lambda>(p, m). nat m)")
  fix p :: nat and m :: int
  assume "\<not> m < 2 ^ p"
  moreover have "(0::int) < 2 ^ p" by simp
  ultimately have "0 < m" by linarith
  then show "((p, m div 2), (p, m)) \<in> measure (\<lambda>(p, m). nat m)" by simp
qed simp

declare excessBits.simps [simp del]

text \<open>\<open>m / 2 ^ k\<close> for a mantissa \<open>m \<ge> 0\<close>, rounded to the nearest integer, ties to even.\<close>

definition roundHalfEven :: "int \<Rightarrow> nat \<Rightarrow> int" where
  "roundHalfEven m k =
     (if k = 0 then m
      else (let q = m div 2 ^ k; r = m mod 2 ^ k; half = 2 ^ (k - 1)
            in if r > half \<or> (r = half \<and> odd q) then q + 1 else q))"

definition roundTo :: "nat \<Rightarrow> binary \<Rightarrow> binary" where
  "roundTo p a =
     (let k = excessBits p \<bar>mantissa a\<bar>
      in \<lparr>mantissa = sgn (mantissa a) * roundHalfEven \<bar>mantissa a\<bar> k,
          exponent = exponent a + int k\<rparr>)"

text \<open>The mantissa of a number at a smaller exponent \<open>e\<close>.\<close>

definition scaled :: "binary \<Rightarrow> int \<Rightarrow> int" where
  "scaled a e = mantissa a * 2 ^ nat (exponent a - e)"

definition fadd :: "nat \<Rightarrow> binary \<Rightarrow> binary \<Rightarrow> binary" where
  "fadd p a b =
     (let e = min (exponent a) (exponent b)
      in roundTo p \<lparr>mantissa = scaled a e + scaled b e, exponent = e\<rparr>)"

definition fsub :: "nat \<Rightarrow> binary \<Rightarrow> binary \<Rightarrow> binary" where
  "fsub p a b =
     (let e = min (exponent a) (exponent b)
      in roundTo p \<lparr>mantissa = scaled a e - scaled b e, exponent = e\<rparr>)"

definition fmul :: "nat \<Rightarrow> binary \<Rightarrow> binary \<Rightarrow> binary" where
  "fmul p a b =
     roundTo p \<lparr>mantissa = mantissa a * mantissa b, exponent = exponent a + exponent b\<rparr>"

definition fless :: "binary \<Rightarrow> binary \<Rightarrow> bool" where
  "fless a b = (let e = min (exponent a) (exponent b) in scaled a e < scaled b e)"

text \<open>The conversion \<open>(float) n\<close> of an \<open>int\<close>, for \<open>p = 24\<close>.\<close>

definition ofInt :: "nat \<Rightarrow> int \<Rightarrow> binary" where
  "ofInt p n = roundTo p \<lparr>mantissa = n, exponent = 0\<rparr>"

text \<open>
  The literals of the source: \<open>0.05f\<close> is \<open>0x3D4CCCCD\<close> and \<open>0.1f\<close> is \<open>0x3DCCCCCD\<close>,
  the floats nearest to one twentieth and to one tenth; \<open>1.0\<close> and \<open>0.0\<close> are exact.
\<close>

definition f_0_05 :: binary where
  "f_0_05 = \<lparr>mantissa = 13421773, exponent = - 28\<rparr>"

definition f_0_1 :: binary where
  "f_0_1 = \<lparr>mantissa = 13421773, exponent = - 27\<rparr>"

definition f_1_0 :: binary where
  "f_1_0 = \<lparr>mantissa = 1, exponent = 0\<rparr>"

definition f_0_0 :: binary where
  "f_0_0 = \<lparr>mantissa = 0, exponent = 0\<rparr>"

text \<open>The number a value stands for.\<close>

definition valueOf :: "binary \<Rightarrow> rat" where
  "valueOf a =
     (if 0 \<le> exponent a then of_int (mantissa a) * 2 ^ nat (exponent a)
      else of_int (mantissa a) / 2 ^ nat (- exponent a))"

text \<open>
  Modelled from the spec: \<open>roundToInt\<close> is not part of the source. It is the \<open>int\<close>
  nearest to the float, a tie going to the even one.
\<close>

definition roundToInt :: "binary \<Rightarrow> int" where
  "roundToInt a =
     int32 (if 0 \<le> exponent a then mantissa a * 2 ^ nat (exponent a)
            else sgn (mantissa a) * roundHalfEven \<bar>mantissa a\<bar> (nat (- exponent a)))"

section \<open>Rectangles of pixels\<close>

text \<open>
  Modelled from the spec: \<open>Rectangle<int>\<close> and \<open>Point<int>\<close> are not part of the
  source. A rectangle is its position and its size; a point is a pair. The operations
  are those \<open>drawForPath\<close> uses: the translation by a point (\<open>operator+\<close>), the
  expansion by an amount on each side, and the intersection, which is the empty
  rectangle at the origin when the two do not meet. The four numbers are \<open>int\<close>s and
  every sum, difference and product of the operations is computed in \<open>int\<close>.
\<close>

record rectangle =
  getX :: int
  getY :: int
  getWidth :: int
  getHeight :: int

definition translated :: "rectangle \<Rightarrow> int \<times> int \<Rightarrow> rectangle" where
  "translated r p = r\<lparr>getX := int32 (getX r + fst p), getY := int32 (getY r + snd p)\<rparr>"

definition expanded :: "rectangle \<Rightarrow> int \<Rightarrow> rectangle" where
  "expanded r delta =
     \<lparr>getX = int32 (getX r - delta), getY = int32 (getY r - delta),
      getWidth = max 0 (int32 (getWidth r + int32 (delta * 2))),
      getHeight = max 0 (int32 (getHeight r + int32 (delta * 2)))\<rparr>"

definition getIntersection :: "rectangle \<Rightarrow> rectangle \<Rightarrow> rectangle" where
  "getIntersection r other =
     (let nx = max (getX r) (getX other);
          ny = max (getY r) (getY other);
          nw = int32 (min (int32 (getX r + getWidth r)) (int32 (getX other + getWidth other)) - nx);
          nh = int32 (min (int32 (getY r + getHeight r)) (int32 (getY other + getHeight other)) - ny)
      in if nw \<ge> 0 \<and> nh \<ge> 0
         then \<lparr>getX = nx, getY = ny, getWidth = nw, getHeight = nh\<rparr>
         else \<lparr>getX = 0, getY = 0, getWidth = 0, getHeight = 0\<rparr>)"

text \<open>The pixels of a rectangle.\<close>

definition contains :: "rectangle \<Rightarrow> int \<times> int \<Rightarrow> bool" where
  "contains r p =
     (getX r \<le> fst p \<and> fst p < getX r + getWidth r \<and>
      getY r \<le> snd p \<and> snd p < getY r + getHeight r)"

section \<open>Images\<close>

text \<open>
  Modelled from the spec: the class \<open>Image\<close> is not part of the source. An image is a
  handle to pixel data that several images may share (copy-on-write); an invalid image
  has no pixel data. The pixel data live in a heap, a list addressed by position, each
  with its pixel format, its bitmap and the number of images that refer to it.
\<close>

datatype pixelFormat = UnknownFormat | RGB | ARGB | SingleChannel

record imagePixelData =
  pixelFormat :: pixelFormat
  bitmap :: bitmapData
  referenceCount :: nat

type_synonym heap = "imagePixelData list"

type_synonym image = "nat option"

definition isValid :: "image \<Rightarrow> bool" where
  "isValid img = (img \<noteq> None)"

definition incReferenceCount :: "heap \<Rightarrow> nat \<Rightarrow> heap" where
  "incReferenceCount hp a = hp[a := (hp ! a)\<lparr>referenceCount := referenceCount (hp ! a) + 1\<rparr>]"

definition decReferenceCount :: "heap \<Rightarrow> nat \<Rightarrow> heap" where
  "decReferenceCount hp a = hp[a := (hp ! a)\<lparr>referenceCount := referenceCount (hp ! a) - 1\<rparr>]"

text \<open>
  Modelled from the spec: the end of the life of an image, which gives up its share of
  the pixel data.
\<close>

definition releaseImage :: "heap \<Rightarrow> image \<Rightarrow> heap" where
  "releaseImage hp img = (case img of None \<Rightarrow> hp | Some a \<Rightarrow> decReferenceCount hp a)"

text \<open>
  Modelled from the spec: \<open>Image::convertedToFormat\<close>. An image that already has the
  format is returned as it is, a second handle to the same pixel data; otherwise the
  result is new pixel data. How the bytes of another format become bytes of the new one
  is the parameter \<open>conv\<close>.
\<close>

definition convertedToFormat ::
  "(pixelFormat \<Rightarrow> imagePixelData \<Rightarrow> bitmapData) \<Rightarrow> heap \<Rightarrow> image \<Rightarrow> pixelFormat
     \<Rightarrow> (heap \<times> image) option" where
  "convertedToFormat conv hp img newFormat =
     (case img of None \<Rightarrow> Some (hp, None)
      | Some a \<Rightarrow>
          if a < length hp
          then (if pixelFormat (hp ! a) = newFormat
                then Some (incReferenceCount hp a, Some a)
                else Some (hp @ [\<lparr>pixelFormat = newFormat, bitmap = conv newFormat (hp ! a),
                                  referenceCount = 1\<rparr>],
                           Some (length hp)))
          else None)"

text \<open>
  Modelled from the spec: \<open>Image::duplicateIfShared\<close>. Pixel data with more than one
  owner are copied; the image then refers to the copy, of which it is the only owner.
\<close>

definition duplicateIfShared :: "heap \<Rightarrow> image \<Rightarrow> (heap \<times> image) option" where
  "duplicateIfShared hp img =
     (case img of None \<Rightarrow> Some (hp, None)
      | Some a \<Rightarrow>
          if a < length hp
          then (if referenceCount (hp ! a) > 1
                then Some (decReferenceCount hp a @ [(hp ! a)\<lparr>referenceCount := 1\<rparr>],
                           Some (length hp))
                else Some (hp, Some a))
          else None)"

text \<open>
  Modelled from the spec: the constructor \<open>Image (format, width, height, clearImage)\<close>
  with \<open>clearImage\<close> set: new pixel data, all bytes zero, one row after the other.
\<close>

definition newImage :: "heap \<Rightarrow> pixelFormat \<Rightarrow> int \<Rightarrow> int \<Rightarrow> heap \<times> image" where
  "newImage hp format w h =
     (hp @ [\<lparr>pixelFormat = format,
              bitmap = \<lparr>data = replicate (nat w * nat h) 0, width = w, height = h,
                        lineStride = nat w\<rparr>,
              referenceCount = 1\<rparr>],
      Some (length hp))"

text \<open>
  The overload \<open>blurSingleChannelImage (Image&, int radius)\<close>: the blur works in place
  on the pixel data the image refers to.
\<close>

definition blurSingleChannelImage_image :: "heap \<Rightarrow> image \<Rightarrow> int \<Rightarrow> heap option" where
  "blurSingleChannelImage_image hp img radius =
     (case img of None \<Rightarrow> None
      | Some a \<Rightarrow>
          if a < length hp
          then (case blurSingleChannelImage_bitmap (bitmap (hp ! a)) radius of
                  None \<Rightarrow> None
                | Some bm \<Rightarrow> Some (hp[a := (hp ! a)\<lparr>bitmap := bm\<rparr>]))
          else None)"

section \<open>The drawing context\<close>

text \<open>
  Modelled from the spec: the class \<open>Graphics\<close> is not part of the source. A drawing
  context has clip bounds, and it records the calls made on it, in order; a call that
  draws an image records the pixels of the image at that moment. The type of colours
  is a parameter.
\<close>

datatype 'c graphicsCall =
    SetColour 'c
  | SetOpacity binary
  | DrawImageAt bitmapData int int bool

record 'c graphics =
  getClipBounds :: rectangle
  calls :: "'c graphicsCall list"

definition setColour :: "'c graphics \<Rightarrow> 'c \<Rightarrow> 'c graphics" where
  "setColour g newColour = g\<lparr>calls := calls g @ [SetColour newColour]\<rparr>"

definition setOpacity :: "'c graphics \<Rightarrow> binary \<Rightarrow> 'c graphics" where
  "setOpacity g newOpacity = g\<lparr>calls := calls g @ [SetOpacity newOpacity]\<rparr>"

definition drawImageAt ::
  "'c graphics \<Rightarrow> heap \<Rightarrow> image \<Rightarrow> int \<Rightarrow> int \<Rightarrow> bool \<Rightarrow> 'c graphics" where
  "drawImageAt g hp img x y fillAlphaChannelWithCurrentBrush =
     (case img of None \<Rightarrow> g
      | Some a \<Rightarrow>
          g\<lparr>calls := calls g
               @ [DrawImageAt (bitmap (hp ! a)) x y fillAlphaChannelWithCurrentBrush]\<rparr>)"

text \<open>
  Modelled from the spec: the class \<open>Path\<close> is not part of the source. Of a path the
  shadow needs the smallest rectangle of whole pixels around its bounds
  (\<open>path.getBounds().getSmallestIntegerContainer()\<close>) and its fill: the coverage of
  the pixel at every position of the plane, which \<open>fillPath\<close> with white on a cleared
  single-channel image writes into the image, moved by the translation. The
  translation is a pair of \<open>float\<close>s.
\<close>

record path =
  integerBounds :: rectangle
  coverage :: "rat \<Rightarrow> rat \<Rightarrow> uint8"

definition fillPath :: "heap \<Rightarrow> image \<Rightarrow> path \<Rightarrow> binary \<Rightarrow> binary \<Rightarrow> heap" where
  "fillPath hp img p dx dy =
     (case img of None \<Rightarrow> hp
      | Some a \<Rightarrow>
          (let bm = bitmap (hp ! a);
               bytes = concat (map (\<lambda>y. map (\<lambda>x. coverage p (of_nat x - valueOf dx)
                                                        (of_nat y - valueOf dy))
                                            [0..<nat (width bm)])
                                 [0..<nat (height bm)])
           in hp[a := (hp ! a)\<lparr>bitmap := bm\<lparr>data := bytes\<rparr>\<rparr>]))"

section \<open>DropShadow\<close>

record 'c dropShadow =
  colour :: 'c
  radius :: int
  offset :: "int \<times> int"

text \<open>
  \<open>drawForImage\<close>. The local image \<open>shadowImage\<close> is first the converted image, then
  its duplicate if it was shared; it is released at the end of the block.
\<close>

definition drawForImage ::
  "(pixelFormat \<Rightarrow> imagePixelData \<Rightarrow> bitmapData) \<Rightarrow> 'c dropShadow \<Rightarrow> heap \<Rightarrow> 'c graphics
     \<Rightarrow> image \<Rightarrow> (heap \<times> 'c graphics) option" where
  "drawForImage conv s hp g srcImage =
     (if isValid srcImage
      then (case convertedToFormat conv hp srcImage SingleChannel of None \<Rightarrow> None
            | Some (hp1, converted) \<Rightarrow>
              (case duplicateIfShared hp1 converted of None \<Rightarrow> None
               | Some (hp2, shadowImage) \<Rightarrow>
                 (case blurSingleChannelImage_image hp2 shadowImage (radius s) of None \<Rightarrow> None
                  | Some hp3 \<Rightarrow>
                      Some (releaseImage hp3 shadowImage,
                            drawImageAt (setColour g (colour s)) hp3 shadowImage
                              (fst (offset s)) (snd (offset s)) True))))
      else Some (hp, g))"

text \<open>The local \<open>area\<close> of \<open>drawForPath\<close>.\<close>

definition drawForPath_area :: "'c dropShadow \<Rightarrow> 'c graphics \<Rightarrow> path \<Rightarrow> rectangle" where
  "drawForPath_area s g p =
     getIntersection
       (expanded (translated (integerBounds p) (offset s)) (int32 (radius s + 1)))
       (expanded (getClipBounds g) (int32 (radius s + 1)))"

text \<open>
  \<open>drawForPath\<close>. The second drawing context \<open>g2\<close> lives only to fill the path, in
  white, into the new image; its effect is \<open>fillPath\<close>. The two differences of the
  translation are computed in \<open>int\<close> and converted to \<open>float\<close>.
\<close>

definition drawForPath ::
  "'c dropShadow \<Rightarrow> heap \<Rightarrow> 'c graphics \<Rightarrow> path \<Rightarrow> (heap \<times> 'c graphics) option" where
  "drawForPath s hp g p =
     (let area = drawForPath_area s g p
      in if getWidth area > 2 \<and> getHeight area > 2
         then (let (hp1, renderedPath) = newImage hp SingleChannel (getWidth area) (getHeight area);
                   hp2 = fillPath hp1 renderedPath p
                           (ofInt 24 (int32 (fst (offset s) - getX area)))
                           (ofInt 24 (int32 (snd (offset s) - getY area)))
               in (case blurSingleChannelImage_image hp2 renderedPath (radius s) of None \<Rightarrow> None
                   | Some hp3 \<Rightarrow>
                       Some (releaseImage hp3 renderedPath,
                             drawImageAt (setColour g (colour s)) hp3 renderedPath
                               (getX area) (getY area) True)))
         else Some (hp, g))"

text \<open>
  Modelled from the spec: \<open>ColourGradient\<close> is not part of the source. It is a gradient
  between two points, linear or radial, with colour stops in the order of their
  positions; it is made with a colour at position 0 and a colour at position 1, and
  \<open>addColour\<close> puts a further stop at its position among them.
\<close>

record 'c colourGradient =
  point1 :: "binary \<times> binary"
  point2 :: "binary \<times> binary"
  isRadial :: bool
  colours :: "(binary \<times> 'c) list"

definition newColourGradient ::
  "'c \<Rightarrow> binary \<Rightarrow> binary \<Rightarrow> 'c \<Rightarrow> binary \<Rightarrow> binary \<Rightarrow> bool \<Rightarrow> 'c colourGradient" where
  "newColourGradient colour1 x1 y1 colour2 x2 y2 radial =
     \<lparr>point1 = (x1, y1), point2 = (x2, y2), isRadial = radial,
      colours = [(f_0_0, colour1), (f_1_0, colour2)]\<rparr>"

fun insertColour :: "binary \<Rightarrow> 'c \<Rightarrow> (binary \<times> 'c) list \<Rightarrow> (binary \<times> 'c) list" where
  "insertColour pos c [] = [(pos, c)]"
| "insertColour pos c (s # ss) =
     (if fless pos (fst s) then (pos, c) # s # ss else s # insertColour pos c ss)"

definition addColour :: "'c colourGradient \<Rightarrow> binary \<Rightarrow> 'c \<Rightarrow> 'c colourGradient" where
  "addColour cg proportionAlongGradient c =
     cg\<lparr>colours := insertColour proportionAlongGradient c (colours cg)\<rparr>"

text \<open>
  The gradient of \<open>drawForRectangle\<close>: its first statement and its loop
  \<open>for (float i = 0.05f; i < 1.0f; i += 0.1f)\<close>. The operations of \<open>Colour\<close>, which is
  not part of the source, are parameters. The position \<open>1.0 - i\<close> is computed in
  \<open>double\<close>, the weight \<open>i * i\<close> in \<open>float\<close>.
\<close>

partial_function (option) alphaFalloffLoop ::
  "('c \<Rightarrow> binary \<Rightarrow> 'c) \<Rightarrow> 'c \<Rightarrow> binary \<Rightarrow> 'c colourGradient \<Rightarrow> 'c colourGradient option" where
  "alphaFalloffLoop withMultipliedAlpha c i cg =
     (if fless i f_1_0
      then alphaFalloffLoop withMultipliedAlpha c (fadd 24 i f_0_1)
             (addColour cg (fsub 53 f_1_0 i) (withMultipliedAlpha c (fmul 24 i i)))
      else Some cg)"

declare alphaFalloffLoop.simps [code]

definition drawForRectangle_gradient ::
  "('c \<Rightarrow> binary \<Rightarrow> 'c) \<Rightarrow> ('c \<Rightarrow> binary \<Rightarrow> 'c) \<Rightarrow> 'c \<Rightarrow> 'c colourGradient option" where
  "drawForRectangle_gradient withAlpha withMultipliedAlpha c =
     alphaFalloffLoop withMultipliedAlpha c f_0_05
       (newColourGradient c (ofInt 24 0) (ofInt 24 0) (withAlpha c f_0_0) (ofInt 24 0) (ofInt 24 0)
          False)"

section \<open>Rectangles of floats\<close>

text \<open>
  \<open>(float) radius / 2.0f\<close>: a division by two only lowers the exponent, no bit of the
  mantissa is lost.
\<close>

definition fhalf :: "binary \<Rightarrow> binary" where
  "fhalf a = a\<lparr>exponent := exponent a - 1\<rparr>"

definition fneg :: "binary \<Rightarrow> binary" where
  "fneg a = a\<lparr>mantissa := - mantissa a\<rparr>"

definition f_2_0 :: binary where
  "f_2_0 = \<lparr>mantissa = 2, exponent = 0\<rparr>"

text \<open>A number of halves: the floats of \<open>drawForRectangle\<close> are such while they are small.\<close>

abbreviation halves :: "int \<Rightarrow> binary" where
  "halves m \<equiv> \<lparr>mantissa = m, exponent = - 1\<rparr>"

text \<open>
  Modelled from the spec: \<open>jmin\<close> and \<open>jmax\<close> are not part of the source. They are the
  smaller and the larger of two values.
\<close>

definition jmin :: "binary \<Rightarrow> binary \<Rightarrow> binary" where
  "jmin a b = (if fless b a then b else a)"

definition jmax :: "binary \<Rightarrow> binary \<Rightarrow> binary" where
  "jmax a b = (if fless a b then b else a)"

text \<open>
  Modelled from the spec: \<open>Rectangle<float>\<close> is not part of the source. As for the
  rectangles of pixels, a rectangle is its position and its size, here four floats, and
  every operation computes in \<open>float\<close>: \<open>toFloat\<close> converts the four numbers, \<open>expanded\<close>
  moves the position back by the amount and adds it twice to the size (which does not
  go below zero), \<open>reduced\<close> expands by the negated amount, \<open>operator+\<close> moves the
  position, and the four \<open>removeFrom...\<close> cut a strip of the given thickness (at most
  the size there is) from a side, return it and leave the rest in the rectangle.
\<close>

record floatRectangle =
  posX :: binary
  posY :: binary
  rectW :: binary
  rectH :: binary

definition toFloat :: "rectangle \<Rightarrow> floatRectangle" where
  "toFloat r =
     \<lparr>posX = ofInt 24 (getX r), posY = ofInt 24 (getY r),
      rectW = ofInt 24 (getWidth r), rectH = ofInt 24 (getHeight r)\<rparr>"

definition expandedF :: "floatRectangle \<Rightarrow> binary \<Rightarrow> floatRectangle" where
  "expandedF r delta =
     \<lparr>posX = fsub 24 (posX r) delta, posY = fsub 24 (posY r) delta,
      rectW = jmax f_0_0 (fadd 24 (rectW r) (fmul 24 delta f_2_0)),
      rectH = jmax f_0_0 (fadd 24 (rectH r) (fmul 24 delta f_2_0))\<rparr>"

definition reducedF :: "floatRectangle \<Rightarrow> binary \<Rightarrow> floatRectangle" where
  "reducedF r delta = expandedF r (fneg delta)"

definition translatedF :: "floatRectangle \<Rightarrow> binary \<times> binary \<Rightarrow> floatRectangle" where
  "translatedF r p = r\<lparr>posX := fadd 24 (posX r) (fst p), posY := fadd 24 (posY r) (snd p)\<rparr>"

definition removeFromTop :: "floatRectangle \<Rightarrow> binary \<Rightarrow> floatRectangle \<times> floatRectangle" where
  "removeFromTop r amountToRemove =
     (let piece = r\<lparr>rectH := jmin amountToRemove (rectH r)\<rparr>
      in (piece, r\<lparr>posY := fadd 24 (posY r) (rectH piece),
                    rectH := fsub 24 (rectH r) (rectH piece)\<rparr>))"

definition removeFromLeft :: "floatRectangle \<Rightarrow> binary \<Rightarrow> floatRectangle \<times> floatRectangle" where
  "removeFromLeft r amountToRemove =
     (let piece = r\<lparr>rectW := jmin amountToRemove (rectW r)\<rparr>
      in (piece, r\<lparr>posX := fadd 24 (posX r) (rectW piece),
                    rectW := fsub 24 (rectW r) (rectW piece)\<rparr>))"

definition removeFromRight :: "floatRectangle \<Rightarrow> binary \<Rightarrow> floatRectangle \<times> floatRectangle" where
  "removeFromRight r amountToRemove =
     (let amount = jmin amountToRemove (rectW r)
      in (r\<lparr>posX := fsub 24 (fadd 24 (posX r) (rectW r)) amount, rectW := amount\<rparr>,
          r\<lparr>rectW := fsub 24 (rectW r) amount\<rparr>))"

definition removeFromBottom :: "floatRectangle \<Rightarrow> binary \<Rightarrow> floatRectangle \<times> floatRectangle" where
  "removeFromBottom r amountToRemove =
     (let amount = jmin amountToRemove (rectH r)
      in (r\<lparr>posY := fsub 24 (fadd 24 (posY r) (rectH r)) amount, rectH := amount\<rparr>,
          r\<lparr>rectH := fsub 24 (rectH r) amount\<rparr>))"

text \<open>
  The points of the plane a rectangle covers, which \<open>fillRect\<close> paints: from its
  position, inclusive, to its position plus its size, exclusive.
\<close>

definition covers :: "floatRectangle \<Rightarrow> rat \<times> rat \<Rightarrow> bool" where
  "covers r p =
     (valueOf (posX r) \<le> fst p \<and> fst p < valueOf (posX r) + valueOf (rectW r) \<and>
      valueOf (posY r) \<le> snd p \<and> snd p < valueOf (posY r) + valueOf (rectH r))"

text \<open>The rectangles of a list that cover a point.\<close>

definition covering :: "floatRectangle list \<Rightarrow> rat \<times> rat \<Rightarrow> floatRectangle list" where
  "covering rs p = filter (\<lambda>r. covers r p) rs"

section \<open>The sections of drawForRectangle\<close>

text \<open>
  The geometry of \<open>drawForRectangle\<close>: the local \<open>area\<close>, the rectangle \<open>r\<close> it is
  expanded to, and the nine rectangles the function fills, in the order of its calls
  of \<open>fillRect\<close>: the three sections of the top strip, the three of the bottom strip,
  the left and the right section of what is left, and \<open>area\<close> itself.
\<close>

definition drawForRectangle_area :: "'c dropShadow \<Rightarrow> rectangle \<Rightarrow> floatRectangle" where
  "drawForRectangle_area s targetArea =
     (let radiusInset = fhalf (ofInt 24 (radius s))
      in translatedF (reducedF (toFloat targetArea) radiusInset)
           (ofInt 24 (fst (offset s)), ofInt 24 (snd (offset s))))"

definition drawForRectangle_expanded :: "'c dropShadow \<Rightarrow> rectangle \<Rightarrow> floatRectangle" where
  "drawForRectangle_expanded s targetArea =
     (let radiusInset = fhalf (ofInt 24 (radius s));
          expandedRadius = fadd 24 (ofInt 24 (radius s)) radiusInset
      in expandedF (drawForRectangle_area s targetArea) expandedRadius)"

definition drawForRectangle_sections :: "'c dropShadow \<Rightarrow> rectangle \<Rightarrow> floatRectangle list" where
  "drawForRectangle_sections s targetArea =
     (let radiusInset = fhalf (ofInt 24 (radius s));
          expandedRadius = fadd 24 (ofInt 24 (radius s)) radiusInset;
          area = drawForRectangle_area s targetArea;
          r = expandedF area expandedRadius;
          (top, r) = removeFromTop r expandedRadius;
          (bottom, r) = removeFromBottom r expandedRadius;
          (topLeft, top) = removeFromLeft top expandedRadius;
          (topRight, top) = removeFromRight top expandedRadius;
          (bottomLeft, bottom) = removeFromLeft bottom expandedRadius;
          (bottomRight, bottom) = removeFromRight bottom expandedRadius;
          (left, r) = removeFromLeft r expandedRadius;
          (right, r) = removeFromRight r expandedRadius
      in [topLeft, topRight, top, bottomLeft, bottomRight, bottom, left, right, area])"

section \<open>DropShadowEffect\<close>

text \<open>
  \<open>applyEffect\<close>, on the shadow the effect holds. \<open>Colour::withMultipliedAlpha\<close> is not
  part of the source and is a parameter. The call \<open>g.drawImageAt (image, 0, 0)\<close> leaves
  the last argument of \<open>drawImageAt\<close> to its default, false.
\<close>

definition applyEffect ::
  "('c \<Rightarrow> binary \<Rightarrow> 'c) \<Rightarrow> (pixelFormat \<Rightarrow> imagePixelData \<Rightarrow> bitmapData) \<Rightarrow> 'c dropShadow
     \<Rightarrow> heap \<Rightarrow> 'c graphics \<Rightarrow> image \<Rightarrow> binary \<Rightarrow> binary \<Rightarrow> (heap \<times> 'c graphics) option" where
  "applyEffect withMultipliedAlpha conv shadow hp g img scaleFactor alpha =
     (let s1 = shadow\<lparr>radius := roundToInt (fmul 24 (ofInt 24 (radius shadow)) scaleFactor)\<rparr>;
          s2 = s1\<lparr>colour := withMultipliedAlpha (colour s1) alpha\<rparr>;
          s3 = s2\<lparr>offset := (roundToInt (fmul 24 (ofInt 24 (fst (offset s2))) scaleFactor),
                              snd (offset s2))\<rparr>;
          s4 = s3\<lparr>offset := (fst (offset s3),
                              roundToInt (fmul 24 (ofInt 24 (snd (offset s3))) scaleFactor))\<rparr>
      in (case drawForImage conv s4 hp g img of None \<Rightarrow> None
          | Some (hp', g') \<Rightarrow> Some (hp', drawImageAt (setOpacity g' alpha) hp' img 0 0 False)))"

section \<open>Arithmetic of the averages\<close>

lemma unat_uint8_bound: "unat (a :: uint8) < 256"
  using unsigned_less [of a, where ?'a = nat] by simp

lemma unat_widen: "unat (ucast (a :: uint8) :: uint32) = unat a"
proof -
  have "unat a < 2 ^ 32" using unat_uint8_bound [of a] by simp
  then show ?thesis by (simp add: unsigned_ucast_eq take_bit_nat_eq_self)
qed

lemma unat_narrow: "unat w < 256 \<Longrightarrow> unat (ucast (w :: uint32) :: uint8) = unat w"
  by (simp add: unsigned_ucast_eq take_bit_nat_eq_self)

lemma unat_firstAverage:
  "unat (word_of_int (firstAverage a b) :: uint8) = (unat a + unat b + 1) div 3"
proof -
  have "firstAverage a b = int ((unat a + unat b + 1) div 3)"
    by (simp add: firstAverage_def zdiv_int)
  moreover have "(unat a + unat b + 1) div 3 < 256"
    using unat_uint8_bound [of a] unat_uint8_bound [of b] by simp
  ultimately show ?thesis
    by (simp add: unat_of_nat)
qed

lemma unat_middleAverage_wide:
  "unat (middleAverage (ucast (x :: uint8)) a b) = (unat x + unat a + unat b + 1) div 3"
proof -
  have b: "unat x + unat a + unat b + 1 < 4294967296"
    using unat_uint8_bound [of a] unat_uint8_bound [of b] unat_uint8_bound [of x] by simp
  show ?thesis
    using b by (simp add: middleAverage_def unat_div unat_word_ariths unat_widen)
qed

lemma unat_middleAverage:
  "unat (ucast (middleAverage (ucast x) a b) :: uint8) = (unat (x::uint8) + unat a + unat b + 1) div 3"
proof -
  have "(unat x + unat a + unat b + 1) div 3 < 256"
    using unat_uint8_bound [of a] unat_uint8_bound [of b] unat_uint8_bound [of x] by simp
  then show ?thesis
    by (simp add: unat_narrow unat_middleAverage_wide)
qed

lemma unat_finalAverage_wide:
  "unat (finalAverage (ucast (x :: uint8)) a) = (unat x + unat a + 1) div 3"
proof -
  have b: "unat x + unat a + 1 < 4294967296"
    using unat_uint8_bound [of a] unat_uint8_bound [of x] by simp
  show ?thesis
    using b by (simp add: finalAverage_def unat_div unat_word_ariths unat_widen)
qed

lemma unat_finalAverage:
  "unat (ucast (finalAverage (ucast x) a) :: uint8) = (unat (x::uint8) + unat a + 1) div 3"
proof -
  have "(unat x + unat a + 1) div 3 < 256"
    using unat_uint8_bound [of a] unat_uint8_bound [of x] by simp
  then show ?thesis
    by (simp add: unat_narrow unat_finalAverage_wide)
qed

section \<open>One pass over a line\<close>

lemma peek_int: "peek buf (int i) = (if i < length buf then Some (buf ! i) else None)"
  by (simp add: peek_def)

lemma poke_int: "poke buf (int i) v = (if i < length buf then Some (buf[i := v]) else None)"
  by (simp add: poke_def)

lemmas int_offset = peek_int poke_int of_nat_add [symmetric]

lemma tripletLoop_run:
  "0 < delta \<Longrightarrow> d + Suc k * delta < length buf \<Longrightarrow>
   \<exists>buf'. tripletLoop buf (int d) (int (Suc k)) delta lastV
            = Some (buf', int (d + Suc k * delta), ucast (buf ! (d + k * delta)))
     \<and> length buf' = length buf
     \<and> (\<forall>j\<le>k. buf' ! (d + j * delta) =
            ucast (middleAverage (if j = 0 then lastV else ucast (buf ! (d + (j - 1) * delta)))
                     (buf ! (d + j * delta)) (buf ! (d + Suc j * delta))))
     \<and> (\<forall>i. (\<forall>j\<le>k. i \<noteq> d + j * delta) \<longrightarrow> buf' ! i = buf ! i)"
proof (induction k arbitrary: buf d lastV)
  case 0
  then show ?case
    by (subst tripletLoop.simps) (auto simp del: of_nat_add simp add: int_offset)
next
  case (Suc k)
  let ?v = "ucast (middleAverage lastV (buf ! d) (buf ! (d + delta))) :: uint8"
  let ?b = "buf[d := ?v]"
  have len: "d + delta + Suc k * delta < length ?b" using Suc.prems by simp
  from Suc.IH[OF Suc.prems(1) len, of "ucast (buf ! d)"]
  obtain buf' where r: "tripletLoop ?b (int (d + delta)) (int (Suc k)) delta (ucast (buf ! d))
            = Some (buf', int (d + delta + Suc k * delta), ucast (?b ! (d + delta + k * delta)))"
     and l: "length buf' = length ?b"
     and v: "\<forall>j\<le>k. buf' ! (d + delta + j * delta) =
            ucast (middleAverage (if j = 0 then ucast (buf ! d) else ucast (?b ! (d + delta + (j - 1) * delta)))
                     (?b ! (d + delta + j * delta)) (?b ! (d + delta + Suc j * delta)))"
     and f: "\<forall>i. (\<forall>j\<le>k. i \<noteq> d + delta + j * delta) \<longrightarrow> buf' ! i = ?b ! i"
    by blast
  have step: "tripletLoop buf (int d) (int (Suc (Suc k))) delta lastV
        = tripletLoop ?b (int (d + delta)) (int (Suc k)) delta (ucast (buf ! d))"
    using Suc.prems by (subst tripletLoop.simps) (auto simp del: of_nat_add simp add: int_offset)
  have nb: "\<And>m. ?b ! (d + delta + m) = buf ! (d + delta + m)"
    using Suc.prems(1) by simp
  show ?case
  proof (intro exI conjI allI impI)
    show "tripletLoop buf (int d) (int (Suc (Suc k))) delta lastV
       = Some (buf', int (d + Suc (Suc k) * delta), ucast (buf ! (d + Suc k * delta)))"
      using step r nb[of "k * delta"] by (simp add: algebra_simps)
    show "length buf' = length buf" using l by simp
  next
    fix j assume j: "j \<le> Suc k"
    show "buf' ! (d + j * delta) =
            ucast (middleAverage (if j = 0 then lastV else ucast (buf ! (d + (j - 1) * delta)))
                     (buf ! (d + j * delta)) (buf ! (d + Suc j * delta)))"
    proof (cases j)
      case 0
      have "\<forall>j\<le>k. d \<noteq> d + delta + j * delta" using Suc.prems(1) by simp
      with f have "buf' ! d = ?b ! d" by blast
      then show ?thesis using 0 Suc.prems by simp
    next
      case (Suc m)
      then have m: "m \<le> k" using j by simp
      from v m have "buf' ! (d + delta + m * delta) =
            ucast (middleAverage (if m = 0 then ucast (buf ! d) else ucast (?b ! (d + delta + (m - 1) * delta)))
                     (?b ! (d + delta + m * delta)) (?b ! (d + delta + Suc m * delta)))" by blast
      then show ?thesis using Suc nb[of "m * delta"] nb[of "Suc m * delta"] nb[of "(m - 1) * delta"]
        by (cases m) (simp_all add: algebra_simps)
    qed
  next
    fix i assume i: "\<forall>j\<le>Suc k. i \<noteq> d + j * delta"
    have "\<forall>j\<le>k. i \<noteq> d + delta + j * delta"
    proof (intro allI impI)
      fix j assume "j \<le> k"
      then have "Suc j \<le> Suc k" by simp
      with i have "i \<noteq> d + Suc j * delta" by blast
      then show "i \<noteq> d + delta + j * delta" by (simp add: algebra_simps)
    qed
    with f have "buf' ! i = ?b ! i" by blast
    moreover have "i \<noteq> d" using i[rule_format, of 0] by simp
    ultimately show "buf' ! i = buf ! i" by simp
  qed
qed

lemma stride_neq: "0 < (delta::nat) \<Longrightarrow> i \<noteq> j \<Longrightarrow> d + i * delta \<noteq> d + j * delta"
  by simp

lemma blurDataTriplets_run:
  assumes delta: "0 < delta" and len: "d + (k + 2) * delta < length buf"
  shows "\<exists>buf'. blurDataTriplets buf (int d) (int (k + 3)) delta = Some buf'
     \<and> length buf' = length buf
     \<and> buf' ! d = word_of_int (firstAverage (buf ! d) (buf ! (d + delta)))
     \<and> (\<forall>j\<le>k. buf' ! (d + (j + 1) * delta) =
            ucast (middleAverage (ucast (buf ! (d + j * delta)))
                     (buf ! (d + (j + 1) * delta)) (buf ! (d + (j + 2) * delta))))
     \<and> buf' ! (d + (k + 2) * delta) =
            ucast (finalAverage (ucast (buf ! (d + (k + 1) * delta))) (buf ! (d + (k + 2) * delta)))
     \<and> (\<forall>i. (\<forall>j\<le>k + 2. i \<noteq> d + j * delta) \<longrightarrow> buf' ! i = buf ! i)"
proof -
  let ?v0 = "word_of_int (firstAverage (buf ! d) (buf ! (d + delta))) :: uint8"
  let ?b1 = "buf[d := ?v0]"
  have nb: "\<And>m. ?b1 ! (d + delta + m) = buf ! (d + delta + m)"
    using delta by simp
  have len1: "d + delta + Suc k * delta < length ?b1" using len by (simp add: algebra_simps)
  from tripletLoop_run [OF delta len1, of "ucast (buf ! d)"]
  obtain b2 where r: "tripletLoop ?b1 (int (d + delta)) (int (Suc k)) delta (ucast (buf ! d))
            = Some (b2, int (d + delta + Suc k * delta), ucast (?b1 ! (d + delta + k * delta)))"
     and l: "length b2 = length ?b1"
     and v: "\<forall>j\<le>k. b2 ! (d + delta + j * delta) =
            ucast (middleAverage (if j = 0 then ucast (buf ! d) else ucast (?b1 ! (d + delta + (j - 1) * delta)))
                     (?b1 ! (d + delta + j * delta)) (?b1 ! (d + delta + Suc j * delta)))"
     and f: "\<forall>i. (\<forall>j\<le>k. i \<noteq> d + delta + j * delta) \<longrightarrow> b2 ! i = ?b1 ! i"
    by blast
  let ?d2 = "d + delta + Suc k * delta"
  let ?lastV = "ucast (?b1 ! (d + delta + k * delta)) :: uint32"
  let ?out = "b2[?d2 := ucast (finalAverage ?lastV (b2 ! ?d2))]"
  have d2: "?d2 = d + (k + 2) * delta" by (simp add: algebra_simps)
  have d2len: "?d2 < length b2" using l len d2 by simp
  have b2d2: "b2 ! ?d2 = buf ! ?d2"
  proof -
    have "\<forall>j\<le>k. ?d2 \<noteq> d + delta + j * delta"
    proof (intro allI impI)
      fix j assume "j \<le> k"
      then have "d + (k + 2) * delta \<noteq> d + (j + 1) * delta"
        using delta by (intro stride_neq) simp_all
      then show "?d2 \<noteq> d + delta + j * delta" by (simp add: algebra_simps)
    qed
    with f have "b2 ! ?d2 = ?b1 ! ?d2" by blast
    then show ?thesis using nb [of "Suc k * delta"] by simp
  qed
  have run: "blurDataTriplets buf (int d) (int (k + 3)) delta = Some ?out"
  proof -
    have e: "int (k + 3) - 2 = int (Suc k)" by simp
    have p0: "peek buf (int d) = Some (buf ! d)"
      using len by (simp add: peek_int)
    have p1: "peek buf (int d + int delta) = Some (buf ! (d + delta))"
      using len by (simp del: of_nat_add add: int_offset)
    have w0: "poke buf (int d) ?v0 = Some ?b1"
      using len by (simp add: poke_int)
    have r': "tripletLoop ?b1 (int d + int delta) (int (k + 3) - 2) delta (ucast (buf ! d))
        = Some (b2, int ?d2, ?lastV)"
      unfolding e using r by (simp only: of_nat_add)
    have p2: "peek b2 (int ?d2) = Some (b2 ! ?d2)"
      using d2len by (simp only: peek_int if_True)
    have w2: "poke b2 (int ?d2) v = Some (b2[?d2 := v])" for v
      using d2len by (simp only: poke_int if_True)
    show ?thesis
      unfolding blurDataTriplets_def
      by (simp only: p0 p1 w0 r' p2 w2 option.case prod.case)
  qed
  show ?thesis
  proof (intro exI conjI allI impI)
    show "blurDataTriplets buf (int d) (int (k + 3)) delta = Some ?out" by (rule run)
    show "length ?out = length buf" using l by simp
    show "?out ! d = ?v0"
    proof -
      have "\<forall>j\<le>k. d \<noteq> d + delta + j * delta" using delta by simp
      with f have "b2 ! d = ?b1 ! d" by blast
      moreover have "d \<noteq> ?d2" using delta by simp
      ultimately show ?thesis using len by simp
    qed
    show "?out ! (d + (k + 2) * delta) =
            ucast (finalAverage (ucast (buf ! (d + (k + 1) * delta))) (buf ! (d + (k + 2) * delta)))"
    proof -
      have e2: "?b1 ! (d + delta + k * delta) = buf ! (d + (k + 1) * delta)"
        using nb [of "k * delta"] by (simp add: algebra_simps)
      show ?thesis unfolding d2 [symmetric] by (simp only: e2 b2d2 nth_list_update_eq [OF d2len])
    qed
  next
    fix j assume j: "j \<le> k"
    have "d + (j + 1) * delta \<noteq> d + (k + 2) * delta"
      using j delta by (intro stride_neq) simp_all
    then have ne: "d + (j + 1) * delta \<noteq> ?d2" using d2 by simp
    from v j have "b2 ! (d + delta + j * delta) =
            ucast (middleAverage (if j = 0 then ucast (buf ! d) else ucast (?b1 ! (d + delta + (j - 1) * delta)))
                     (?b1 ! (d + delta + j * delta)) (?b1 ! (d + delta + Suc j * delta)))" by blast
    then have "b2 ! (d + (j + 1) * delta) =
            ucast (middleAverage (ucast (buf ! (d + j * delta)))
                     (buf ! (d + (j + 1) * delta)) (buf ! (d + (j + 2) * delta)))"
      using nb [of "j * delta"] nb [of "Suc j * delta"] nb [of "(j - 1) * delta"]
      by (cases j) (simp_all add: algebra_simps)
    then show "?out ! (d + (j + 1) * delta) =
            ucast (middleAverage (ucast (buf ! (d + j * delta)))
                     (buf ! (d + (j + 1) * delta)) (buf ! (d + (j + 2) * delta)))"
      using ne by simp
  next
    fix i assume i: "\<forall>j\<le>k + 2. i \<noteq> d + j * delta"
    have "\<forall>j\<le>k. i \<noteq> d + delta + j * delta"
    proof (intro allI impI)
      fix j assume "j \<le> k"
      then have "Suc j \<le> k + 2" by simp
      with i have "i \<noteq> d + Suc j * delta" by blast
      then show "i \<noteq> d + delta + j * delta" by (simp add: algebra_simps)
    qed
    with f have "b2 ! i = ?b1 ! i" by blast
    moreover have "i \<noteq> d" using i [rule_format, of 0] by simp
    moreover have "i \<noteq> ?d2" using i [rule_format, of "k + 2"] d2 by simp
    ultimately show "?out ! i = buf ! i" by simp
  qed
qed

lemma firstAverage_of_nat:
  "word_of_int (firstAverage a b) = (of_nat ((unat a + unat b + 1) div 3) :: uint8)"
proof -
  have "(unat a + unat b + 1) div 3 < 256"
    using unat_uint8_bound [of a] unat_uint8_bound [of b] by simp
  then show ?thesis
    by (simp add: word_unat_eq_iff unat_firstAverage unat_of_nat)
qed

lemma middleAverage_of_nat:
  "ucast (middleAverage (ucast (x :: uint8)) a b)
     = (of_nat ((unat x + unat a + unat b + 1) div 3) :: uint8)"
proof -
  have "(unat x + unat a + unat b + 1) div 3 < 256"
    using unat_uint8_bound [of a] unat_uint8_bound [of b] unat_uint8_bound [of x] by simp
  then show ?thesis
    by (simp add: word_unat_eq_iff unat_middleAverage unat_of_nat)
qed

lemma finalAverage_of_nat:
  "ucast (finalAverage (ucast (x :: uint8)) a) = (of_nat ((unat x + unat a + 1) div 3) :: uint8)"
proof -
  have "(unat x + unat a + 1) div 3 < 256"
    using unat_uint8_bound [of a] unat_uint8_bound [of x] by simp
  then show ?thesis
    by (simp add: word_unat_eq_iff unat_finalAverage unat_of_nat)
qed

lemma length_lineOf [simp]: "length (lineOf buf d n delta) = n"
  by (simp add: lineOf_def)

lemma nth_lineOf [simp]: "k < n \<Longrightarrow> lineOf buf d n delta ! k = buf ! (d + k * delta)"
  by (simp add: lineOf_def)

lemma length_runningAverage3 [simp]: "length (runningAverage3 xs) = length xs"
  by (simp add: runningAverage3_def)

lemma sample_lineOf:
  "sample (lineOf buf d n delta) i =
     (if 0 \<le> i \<and> i < int n then unat (buf ! (d + nat i * delta)) else 0)"
  by (simp add: sample_def nat_less_iff)

lemma blurDataTriplets_line:
  assumes delta: "0 < delta" and n: "3 \<le> n" and len: "d + (n - 1) * delta < length buf"
  shows "\<exists>buf'. blurDataTriplets buf (int d) (int n) delta = Some buf'
     \<and> length buf' = length buf
     \<and> lineOf buf' d n delta = runningAverage3 (lineOf buf d n delta)
     \<and> (\<forall>i. (\<forall>j<n. i \<noteq> d + j * delta) \<longrightarrow> buf' ! i = buf ! i)"
proof -
  from n obtain k where k: "n = k + 3" by (metis add.commute le_Suc_ex)
  have len': "d + (k + 2) * delta < length buf" using len k by simp
  from blurDataTriplets_run [OF delta len']
  obtain buf' where r: "blurDataTriplets buf (int d) (int (k + 3)) delta = Some buf'"
     and l: "length buf' = length buf"
     and v0: "buf' ! d = word_of_int (firstAverage (buf ! d) (buf ! (d + delta)))"
     and vm: "\<forall>j\<le>k. buf' ! (d + (j + 1) * delta) =
            ucast (middleAverage (ucast (buf ! (d + j * delta)))
                     (buf ! (d + (j + 1) * delta)) (buf ! (d + (j + 2) * delta)))"
     and vl: "buf' ! (d + (k + 2) * delta) =
            ucast (finalAverage (ucast (buf ! (d + (k + 1) * delta))) (buf ! (d + (k + 2) * delta)))"
     and f: "\<forall>i. (\<forall>j\<le>k + 2. i \<noteq> d + j * delta) \<longrightarrow> buf' ! i = buf ! i"
    by blast
  have line: "lineOf buf' d n delta = runningAverage3 (lineOf buf d n delta)"
  proof (rule nth_equalityI)
    show "length (lineOf buf' d n delta) = length (runningAverage3 (lineOf buf d n delta))"
      by simp
  next
    fix i assume "i < length (lineOf buf' d n delta)"
    then have i: "i < n" by simp
    have "i = 0 \<or> (\<exists>j. i = j + 1 \<and> j \<le> k) \<or> i = k + 2"
      using i k by presburger
    then consider "i = 0" | j where "i = j + 1" "j \<le> k" | "i = k + 2"
      by blast
    then show "lineOf buf' d n delta ! i = runningAverage3 (lineOf buf d n delta) ! i"
    proof cases
      case 1
      then show ?thesis using i k v0
        by (simp add: runningAverage3_def sample_lineOf firstAverage_of_nat)
    next
      case 2
      from vm 2 have "buf' ! (d + (j + 1) * delta) =
            ucast (middleAverage (ucast (buf ! (d + j * delta)))
                     (buf ! (d + (j + 1) * delta)) (buf ! (d + (j + 2) * delta)))" by blast
      then show ?thesis using i k 2
        by (simp add: runningAverage3_def sample_lineOf middleAverage_of_nat nat_add_distrib)
    next
      case 3
      then show ?thesis using i k vl
        by (simp add: runningAverage3_def sample_lineOf finalAverage_of_nat nat_add_distrib)
    qed
  qed
  have frame: "\<forall>i. (\<forall>j<n. i \<noteq> d + j * delta) \<longrightarrow> buf' ! i = buf ! i"
  proof (intro allI impI)
    fix i assume "\<forall>j<n. i \<noteq> d + j * delta"
    then have "\<forall>j\<le>k + 2. i \<noteq> d + j * delta" using k by simp
    with f show "buf' ! i = buf ! i" by blast
  qed
  show ?thesis using r l line frame k by auto
qed

section \<open>Repeated passes, rows and columns\<close>

lemma int32_id: "- 2147483648 \<le> v \<Longrightarrow> v < 2147483648 \<Longrightarrow> int32 v = v"
  by (simp add: int32_def)

lemma repeatBlur_0: "repeatBlur 0 buf d num delta = Some buf"
  by (subst repeatBlur.simps) (simp add: int32_def)

lemma lineOf_cong:
  "(\<And>k. k < n \<Longrightarrow> b1 ! (d + k * delta) = b2 ! (d + k * delta))
     \<Longrightarrow> lineOf b1 d n delta = lineOf b2 d n delta"
  by (simp add: lineOf_def)

lemma repeatBlur_line:
  assumes delta: "0 < delta" and n: "3 \<le> n" and len: "d + (n - 1) * delta < length buf"
    and r: "r < 2147483648"
  shows "\<exists>buf'. repeatBlur (int r) buf (int d) (int n) delta = Some buf'
     \<and> length buf' = length buf
     \<and> lineOf buf' d n delta = (runningAverage3 ^^ r) (lineOf buf d n delta)
     \<and> (\<forall>i. (\<forall>j<n. i \<noteq> d + j * delta) \<longrightarrow> buf' ! i = buf ! i)"
  using len r
proof (induction r arbitrary: buf)
  case 0
  then show ?case by (simp add: repeatBlur_0)
next
  case (Suc r)
  have dec: "int32 (int (Suc r) - 1) = int r"
    using Suc.prems(2) by (simp add: int32_id)
  from blurDataTriplets_line [OF delta n Suc.prems(1)]
  obtain b1 where r1: "blurDataTriplets buf (int d) (int n) delta = Some b1"
    and l1: "length b1 = length buf"
    and v1: "lineOf b1 d n delta = runningAverage3 (lineOf buf d n delta)"
    and f1: "\<forall>i. (\<forall>j<n. i \<noteq> d + j * delta) \<longrightarrow> b1 ! i = buf ! i"
    by blast
  have len1: "d + (n - 1) * delta < length b1" using l1 Suc.prems by simp
  have r': "r < 2147483648" using Suc.prems(2) by simp
  from Suc.IH [OF len1 r']
  obtain b2 where r2: "repeatBlur (int r) b1 (int d) (int n) delta = Some b2"
    and l2: "length b2 = length b1"
    and v2: "lineOf b2 d n delta = (runningAverage3 ^^ r) (lineOf b1 d n delta)"
    and f2: "\<forall>i. (\<forall>j<n. i \<noteq> d + j * delta) \<longrightarrow> b2 ! i = b1 ! i"
    by blast
  have "repeatBlur (int (Suc r)) buf (int d) (int n) delta = Some b2"
    using r1 r2 by (subst repeatBlur.simps) (simp only: dec, simp)
  moreover have "lineOf b2 d n delta = (runningAverage3 ^^ Suc r) (lineOf buf d n delta)"
    using v1 v2 by (simp add: funpow_swap1)
  ultimately show ?case using l1 l2 f1 f2 by auto
qed


lemma foldr_max_length_if:
  "\<forall>r\<in>set M. length r = w \<Longrightarrow> foldr (\<lambda>xs. max (length xs)) M 0 = (if M = [] then 0 else w)"
  by (induction M) auto

lemma foldr_max_length:
  "M \<noteq> [] \<Longrightarrow> \<forall>r\<in>set M. length r = w \<Longrightarrow> foldr (\<lambda>xs. max (length xs)) M 0 = w"
  using foldr_max_length_if [of M w] by simp

lemma transpose_rect:
  assumes "M \<noteq> []" and "\<forall>r\<in>set M. length r = w"
  shows "transpose M = map (\<lambda>i. map (\<lambda>r. r ! i) M) [0..<w]"
proof (rule nth_equalityI)
  show "length (transpose M) = length (map (\<lambda>i. map (\<lambda>r. r ! i) M) [0..<w])"
    using assms by (simp add: length_transpose foldr_max_length)
next
  fix i assume "i < length (transpose M)"
  moreover have "length (transpose M) = w"
    using assms by (simp add: length_transpose foldr_max_length)
  ultimately have i: "i < length (transpose M)" "i < w" by simp_all
  have "filter (\<lambda>ys. i < length ys) M = M"
    using assms(2) i(2) by (simp add: filter_id_conv)
  then show "transpose M ! i = map (\<lambda>i. map (\<lambda>r. r ! i) M) [0..<w] ! i"
    using i by (simp add: nth_transpose)
qed

lemma transpose_transpose_rect:
  assumes "M \<noteq> []" and "0 < w" and "\<forall>r\<in>set M. length r = w"
  shows "transpose (transpose M) = M"
proof -
  let ?T = "map (\<lambda>i. map (\<lambda>r. r ! i) M) [0..<w]"
  have T: "transpose M = ?T" using assms by (intro transpose_rect)
  have "?T \<noteq> []" using assms(2) by simp
  moreover have "\<forall>c\<in>set ?T. length c = length M" by simp
  ultimately have "transpose ?T = map (\<lambda>j. map (\<lambda>c. c ! j) ?T) [0..<length M]"
    by (rule transpose_rect)
  also have "\<dots> = M"
  proof (rule nth_equalityI)
    show "length (map (\<lambda>j. map (\<lambda>c. c ! j) ?T) [0..<length M]) = length M" by simp
  next
    fix j assume "j < length (map (\<lambda>j. map (\<lambda>c. c ! j) ?T) [0..<length M])"
    then have j: "j < length M" by simp
    then have "length (M ! j) = w" using assms(3) by simp
    then have "map (\<lambda>i. M ! j ! i) [0..<w] = M ! j" using map_nth [of "M ! j"] by simp
    then show "map (\<lambda>j. map (\<lambda>c. c ! j) ?T) [0..<length M] ! j = M ! j"
      using j by (simp add: comp_def)
  qed
  finally show ?thesis using T by simp
qed

lemma transpose_rect_shape:
  assumes "M \<noteq> []" and "0 < w" and "\<forall>r\<in>set M. length r = w"
  shows "transpose M \<noteq> [] \<and> (\<forall>c\<in>set (transpose M). length c = length M)"
  using assms by (simp add: transpose_rect [OF assms(1,3)])

lemma rowPass_funpow: "(rowPass ^^ n) rows = map (runningAverage3 ^^ n) rows"
  by (induction n arbitrary: rows) (simp_all add: rowPass_def funpow_swap1)

lemma length_runningAverage3_funpow [simp]: "length ((runningAverage3 ^^ n) xs) = length xs"
  by (induction n) simp_all

lemma columnPass_funpow:
  assumes "M \<noteq> []" and "0 < w" and "\<forall>r\<in>set M. length r = w"
  shows "(columnPass ^^ n) M = transpose (map (runningAverage3 ^^ n) (transpose M))"
proof (induction n)
  case 0
  then show ?case using assms by (simp add: transpose_transpose_rect)
next
  case (Suc n)
  let ?C = "map (runningAverage3 ^^ n) (transpose M)"
  from transpose_rect_shape [OF assms]
  have C: "?C \<noteq> []" "\<forall>c\<in>set ?C. length c = length M" by auto
  have "0 < length M" using assms(1) by simp
  with C have "transpose (transpose ?C) = ?C" by (intro transpose_transpose_rect)
  then show ?case using Suc by (simp add: columnPass_def comp_def)
qed

lemma transpose_rowsOf:
  assumes "0 < h"
  shows "transpose (rowsOf buf w h stride) = columnsOf buf w h stride"
proof -
  have "rowsOf buf w h stride \<noteq> []" using assms by (simp add: rowsOf_def)
  moreover have "\<forall>r\<in>set (rowsOf buf w h stride). length r = w" by (auto simp: rowsOf_def)
  ultimately have "transpose (rowsOf buf w h stride)
      = map (\<lambda>i. map (\<lambda>r. r ! i) (rowsOf buf w h stride)) [0..<w]"
    by (rule transpose_rect)
  also have "\<dots> = columnsOf buf w h stride"
    by (simp add: rowsOf_def columnsOf_def lineOf_def comp_def mult.commute add.commute)
  finally show ?thesis .
qed

lemma transpose_columnsOf:
  assumes "0 < w"
  shows "transpose (columnsOf buf w h stride) = rowsOf buf w h stride"
proof -
  have "columnsOf buf w h stride \<noteq> []" using assms by (simp add: columnsOf_def)
  moreover have "\<forall>r\<in>set (columnsOf buf w h stride). length r = h" by (auto simp: columnsOf_def)
  ultimately have "transpose (columnsOf buf w h stride)
      = map (\<lambda>i. map (\<lambda>r. r ! i) (columnsOf buf w h stride)) [0..<h]"
    by (rule transpose_rect)
  also have "\<dots> = rowsOf buf w h stride"
    by (simp add: rowsOf_def columnsOf_def lineOf_def comp_def mult.commute add.commute)
  finally show ?thesis .
qed


lemma cells_distinct:
  assumes "x < w" and "x' < w" and "w \<le> stride" and "y \<noteq> y'"
  shows "stride * y + x \<noteq> stride * y' + (x'::nat)"
proof -
  have lt: "stride * a + p < stride * b + q" if "a < b" "p < w" for a b p q
  proof -
    have "stride * a + p < stride * a + stride" using that(2) assms(3) by simp
    also have "\<dots> = stride * Suc a" by simp
    also have "\<dots> \<le> stride * b" using that(1) by (intro mult_le_mono2) simp
    finally show ?thesis by simp
  qed
  from assms(4) consider "y < y'" | "y' < y" by linarith
  then show ?thesis
  proof cases
    case 1 then show ?thesis using lt [of y y' x x'] assms(1) by simp
  next
    case 2 then show ?thesis using lt [of y' y x' x] assms(2) by simp
  qed
qed

lemma blurRows_spec:
  assumes w: "3 \<le> w" and stride: "w \<le> stride"
    and r: "r < 2147483648" and off: "stride * (h - 1) < 2147483648"
  shows "stride * (h - 1) + w \<le> length buf \<Longrightarrow> y0 \<le> h \<Longrightarrow>
     \<exists>buf'. blurRows buf (int w) (int h) stride (int r) y0 = Some buf'
     \<and> length buf' = length buf
     \<and> (\<forall>y. y0 \<le> y \<and> y < h \<longrightarrow>
           lineOf buf' (stride * y) w 1 = (runningAverage3 ^^ r) (lineOf buf (stride * y) w 1))
     \<and> (\<forall>i. (\<forall>y x. y0 \<le> y \<and> y < h \<and> x < w \<longrightarrow> i \<noteq> stride * y + x) \<longrightarrow> buf' ! i = buf ! i)"
proof (induction "h - y0" arbitrary: y0 buf)
  case 0
  then have "y0 = h" by simp
  then show ?case by (subst blurRows.simps) auto
next
  case (Suc m)
  then have y0: "y0 < h" by simp
  have le0: "stride * y0 \<le> stride * (h - 1)" using y0 by (intro mult_le_mono2) simp
  then have len0: "stride * y0 + (w - 1) * 1 < length buf" using Suc.prems(1) w by linarith
  have "int stride * int y0 = int (stride * y0)" by simp
  moreover have "int (stride * y0) < 2147483648" using le0 off by linarith
  ultimately have o32: "int32 (int stride * int y0) = int (stride * y0)"
    by (simp only: int32_id of_nat_0_le_iff order_trans [of "- 2147483648" 0])
  from repeatBlur_line [OF _ w len0 r]
  obtain b1 where r1: "repeatBlur (int r) buf (int (stride * y0)) (int w) 1 = Some b1"
    and l1: "length b1 = length buf"
    and v1: "lineOf b1 (stride * y0) w 1 = (runningAverage3 ^^ r) (lineOf buf (stride * y0) w 1)"
    and f1: "\<forall>i. (\<forall>j<w. i \<noteq> stride * y0 + j * 1) \<longrightarrow> b1 ! i = buf ! i"
    by auto
  have m: "m = h - (y0 + 1)" using Suc.hyps(2) by simp
  have len1: "stride * (h - 1) + w \<le> length b1" using l1 Suc.prems(1) by simp
  have le1: "y0 + 1 \<le> h" using y0 by simp
  from Suc.hyps(1) [OF m len1 le1]
  obtain b2 where r2: "blurRows b1 (int w) (int h) stride (int r) (y0 + 1) = Some b2"
    and l2: "length b2 = length b1"
    and v2: "\<forall>y. y0 + 1 \<le> y \<and> y < h \<longrightarrow>
           lineOf b2 (stride * y) w 1 = (runningAverage3 ^^ r) (lineOf b1 (stride * y) w 1)"
    and f2: "\<forall>i. (\<forall>y x. y0 + 1 \<le> y \<and> y < h \<and> x < w \<longrightarrow> i \<noteq> stride * y + x) \<longrightarrow> b2 ! i = b1 ! i"
    by blast
  have run: "blurRows buf (int w) (int h) stride (int r) y0 = Some b2"
    using y0 r1 r2 by (subst blurRows.simps) (simp only: o32, simp)
  have rows: "lineOf b2 (stride * y) w 1 = (runningAverage3 ^^ r) (lineOf buf (stride * y) w 1)"
    if y: "y0 \<le> y \<and> y < h" for y
  proof (cases "y = y0")
    case True
    have "lineOf b2 (stride * y0) w 1 = lineOf b1 (stride * y0) w 1"
    proof (rule lineOf_cong)
      fix k assume k: "k < w"
      have "\<forall>y x. y0 + 1 \<le> y \<and> y < h \<and> x < w \<longrightarrow> stride * y0 + k * 1 \<noteq> stride * y + x"
        using cells_distinct [OF k _ stride] by auto
      with f2 show "b2 ! (stride * y0 + k * 1) = b1 ! (stride * y0 + k * 1)" by blast
    qed
    then show ?thesis using True v1 by simp
  next
    case False
    then have y': "y0 + 1 \<le> y \<and> y < h" using y by simp
    have "lineOf b1 (stride * y) w 1 = lineOf buf (stride * y) w 1"
    proof (rule lineOf_cong)
      fix k assume k: "k < w"
      have "\<forall>j<w. stride * y + k * 1 \<noteq> stride * y0 + j * 1"
        using cells_distinct [OF k _ stride False] by auto
      with f1 show "b1 ! (stride * y + k * 1) = buf ! (stride * y + k * 1)" by blast
    qed
    then show ?thesis using v2 y' by simp
  qed
  have frame: "b2 ! i = buf ! i"
    if i: "\<forall>y x. y0 \<le> y \<and> y < h \<and> x < w \<longrightarrow> i \<noteq> stride * y + x" for i
  proof -
    have "\<forall>y x. y0 + 1 \<le> y \<and> y < h \<and> x < w \<longrightarrow> i \<noteq> stride * y + x" using i by simp
    with f2 have "b2 ! i = b1 ! i" by blast
    moreover have "\<forall>j<w. i \<noteq> stride * y0 + j * 1" using i y0 by simp
    with f1 have "b1 ! i = buf ! i" by blast
    ultimately show ?thesis by simp
  qed
  show ?case using run l1 l2 rows frame by auto
qed


lemma column_cells_distinct:
  assumes "x < w" and "x' < w" and "w \<le> stride" and "x \<noteq> x'"
  shows "x + k * stride \<noteq> x' + k' * (stride::nat)"
proof (cases "k = k'")
  case True
  then show ?thesis using assms(4) by simp
next
  case False
  from cells_distinct [OF assms(1,2,3) False]
  show ?thesis by (simp add: mult.commute add.commute)
qed

lemma blurColumns_spec:
  assumes h: "3 \<le> h" and stride: "w \<le> stride" and r: "r < 2147483648"
  shows "stride * (h - 1) + w \<le> length buf \<Longrightarrow> x0 \<le> w \<Longrightarrow>
     \<exists>buf'. blurColumns buf (int w) (int h) stride (int r) x0 = Some buf'
     \<and> length buf' = length buf
     \<and> (\<forall>x. x0 \<le> x \<and> x < w \<longrightarrow>
           lineOf buf' x h stride = (runningAverage3 ^^ r) (lineOf buf x h stride))
     \<and> (\<forall>i. (\<forall>x k. x0 \<le> x \<and> x < w \<and> k < h \<longrightarrow> i \<noteq> x + k * stride) \<longrightarrow> buf' ! i = buf ! i)"
proof (induction "w - x0" arbitrary: x0 buf)
  case 0
  then have "x0 = w" by simp
  then show ?case by (subst blurColumns.simps) auto
next
  case (Suc m)
  then have x0: "x0 < w" by simp
  then have pos: "0 < stride" using stride by simp
  have len0: "x0 + (h - 1) * stride < length buf"
    using Suc.prems(1) x0 by (simp add: mult.commute)
  from repeatBlur_line [OF pos h len0 r]
  obtain b1 where r1: "repeatBlur (int r) buf (int x0) (int h) stride = Some b1"
    and l1: "length b1 = length buf"
    and v1: "lineOf b1 x0 h stride = (runningAverage3 ^^ r) (lineOf buf x0 h stride)"
    and f1: "\<forall>i. (\<forall>j<h. i \<noteq> x0 + j * stride) \<longrightarrow> b1 ! i = buf ! i"
    by auto
  have m: "m = w - (x0 + 1)" using Suc.hyps(2) by simp
  have len1: "stride * (h - 1) + w \<le> length b1" using l1 Suc.prems(1) by simp
  have le1: "x0 + 1 \<le> w" using x0 by simp
  from Suc.hyps(1) [OF m len1 le1]
  obtain b2 where r2: "blurColumns b1 (int w) (int h) stride (int r) (x0 + 1) = Some b2"
    and l2: "length b2 = length b1"
    and v2: "\<forall>x. x0 + 1 \<le> x \<and> x < w \<longrightarrow>
           lineOf b2 x h stride = (runningAverage3 ^^ r) (lineOf b1 x h stride)"
    and f2: "\<forall>i. (\<forall>x k. x0 + 1 \<le> x \<and> x < w \<and> k < h \<longrightarrow> i \<noteq> x + k * stride) \<longrightarrow> b2 ! i = b1 ! i"
    by blast
  have run: "blurColumns buf (int w) (int h) stride (int r) x0 = Some b2"
    using x0 r1 r2 by (subst blurColumns.simps) simp
  have cols: "lineOf b2 x h stride = (runningAverage3 ^^ r) (lineOf buf x h stride)"
    if x: "x0 \<le> x \<and> x < w" for x
  proof (cases "x = x0")
    case True
    have "lineOf b2 x0 h stride = lineOf b1 x0 h stride"
    proof (rule lineOf_cong)
      fix k assume k: "k < h"
      have "\<forall>x k'. x0 + 1 \<le> x \<and> x < w \<and> k' < h \<longrightarrow> x0 + k * stride \<noteq> x + k' * stride"
        using column_cells_distinct [OF x0 _ stride] by auto
      with f2 show "b2 ! (x0 + k * stride) = b1 ! (x0 + k * stride)" by blast
    qed
    then show ?thesis using True v1 by simp
  next
    case False
    then have x': "x0 + 1 \<le> x \<and> x < w" using x by simp
    have "lineOf b1 x h stride = lineOf buf x h stride"
    proof (rule lineOf_cong)
      fix k assume k: "k < h"
      have "\<forall>j<h. x + k * stride \<noteq> x0 + j * stride"
        using column_cells_distinct [OF _ x0 stride False] x by auto
      with f1 show "b1 ! (x + k * stride) = buf ! (x + k * stride)" by blast
    qed
    then show ?thesis using v2 x' by simp
  qed
  have frame: "b2 ! i = buf ! i"
    if i: "\<forall>x k. x0 \<le> x \<and> x < w \<and> k < h \<longrightarrow> i \<noteq> x + k * stride" for i
  proof -
    have "\<forall>x k. x0 + 1 \<le> x \<and> x < w \<and> k < h \<longrightarrow> i \<noteq> x + k * stride" using i by simp
    with f2 have "b2 ! i = b1 ! i" by blast
    moreover have "\<forall>j<h. i \<noteq> x0 + j * stride" using i x0 by simp
    with f1 have "b1 ! i = buf ! i" by blast
    ultimately show ?thesis by simp
  qed
  show ?case using run l1 l2 cols frame by auto
qed

lemma blurSingleChannelImage_spec:
  assumes w: "3 \<le> w" and h: "3 \<le> h" and stride: "w \<le> stride"
    and len: "stride * (h - 1) + w \<le> length buf"
    and n: "n < 2147483648" and off: "stride * (h - 1) < 2147483648"
  shows "\<exists>out. blurSingleChannelImage buf (int w) (int h) stride (int n) = Some out
     \<and> length out = length buf
     \<and> rowsOf out w h stride = (columnPass ^^ n) ((rowPass ^^ n) (rowsOf buf w h stride))
     \<and> (\<forall>i. (\<forall>y x. y < h \<and> x < w \<longrightarrow> i \<noteq> stride * y + x) \<longrightarrow> out ! i = buf ! i)"
proof -
  from blurRows_spec [OF w stride n off len, of 0]
  obtain b1 where r1: "blurRows buf (int w) (int h) stride (int n) 0 = Some b1"
    and l1: "length b1 = length buf"
    and v1: "\<forall>y. y < h \<longrightarrow>
           lineOf b1 (stride * y) w 1 = (runningAverage3 ^^ n) (lineOf buf (stride * y) w 1)"
    and f1: "\<forall>i. (\<forall>y x. y < h \<and> x < w \<longrightarrow> i \<noteq> stride * y + x) \<longrightarrow> b1 ! i = buf ! i"
    by auto
  have len1: "stride * (h - 1) + w \<le> length b1" using l1 len by simp
  from blurColumns_spec [OF h stride n len1, of 0]
  obtain b2 where r2: "blurColumns b1 (int w) (int h) stride (int n) 0 = Some b2"
    and l2: "length b2 = length b1"
    and v2: "\<forall>x. x < w \<longrightarrow>
           lineOf b2 x h stride = (runningAverage3 ^^ n) (lineOf b1 x h stride)"
    and f2: "\<forall>i. (\<forall>x k. x < w \<and> k < h \<longrightarrow> i \<noteq> x + k * stride) \<longrightarrow> b2 ! i = b1 ! i"
    by auto
  have run: "blurSingleChannelImage buf (int w) (int h) stride (int n) = Some b2"
    using r1 r2 by (simp add: blurSingleChannelImage_def)
  have rows1: "rowsOf b1 w h stride = (rowPass ^^ n) (rowsOf buf w h stride)"
    using v1 by (simp add: rowsOf_def rowPass_funpow)
  have cols2: "columnsOf b2 w h stride = map (runningAverage3 ^^ n) (columnsOf b1 w h stride)"
    using v2 by (simp add: columnsOf_def)
  have ne: "rowsOf b1 w h stride \<noteq> []" using h by (simp add: rowsOf_def)
  have rect: "\<forall>r\<in>set (rowsOf b1 w h stride). length r = w" by (auto simp: rowsOf_def)
  have w0: "0 < w" and h0: "0 < h" using w h by simp_all
  have "rowsOf b2 w h stride = transpose (columnsOf b2 w h stride)"
    by (simp add: transpose_columnsOf [OF w0])
  also have "\<dots> = transpose (map (runningAverage3 ^^ n) (transpose (rowsOf b1 w h stride)))"
    by (simp add: cols2 transpose_rowsOf [OF h0])
  also have "\<dots> = (columnPass ^^ n) (rowsOf b1 w h stride)"
    by (simp add: columnPass_funpow [OF ne w0 rect])
  finally have rows2: "rowsOf b2 w h stride = (columnPass ^^ n) ((rowPass ^^ n) (rowsOf buf w h stride))"
    using rows1 by simp
  have frame: "b2 ! i = buf ! i" if i: "\<forall>y x. y < h \<and> x < w \<longrightarrow> i \<noteq> stride * y + x" for i
  proof -
    have "\<forall>x k. x < w \<and> k < h \<longrightarrow> i \<noteq> x + k * stride"
      using i by (simp add: mult.commute add.commute)
    with f2 have "b2 ! i = b1 ! i" by blast
    then show ?thesis using f1 i by simp
  qed
  show ?thesis using run l1 l2 rows2 frame by auto
qed

lemma funpow_fixed: "f p = p \<Longrightarrow> (f ^^ n) p = p"
  by (induction n) simp_all

section \<open>Claims about one pass\<close>

text \<open>
  Claim C10. For a line of \<open>n \<ge> 3\<close> bytes inside the buffer, one call of
  \<open>blurDataTriplets\<close> returns, and computes every byte from the values before the
  pass: an interior byte becomes \<open>(in[i-1] + in[i] + in[i+1] + 1) / 3\<close>, the first byte
  \<open>(in[0] + in[1] + 1) / 3\<close> and the last byte \<open>(in[n-2] + in[n-1] + 1) / 3\<close>. The
  neighbour missing beyond an end counts as zero and the divisor stays 3. The sums are
  those of the natural numbers: neither the 32-bit sum nor the cast to \<open>uint8\<close> loses
  anything.
\<close>

theorem blurDataTriplets_three_tap:
  assumes "0 < delta" and "3 \<le> n" and "d + (n - 1) * delta < length buf"
  shows "\<exists>out. blurDataTriplets buf (int d) (int n) delta = Some out
     \<and> unat (out ! d) = (unat (buf ! d) + unat (buf ! (d + delta)) + 1) div 3
     \<and> unat (out ! (d + (n - 1) * delta)) =
         (unat (buf ! (d + (n - 2) * delta)) + unat (buf ! (d + (n - 1) * delta)) + 1) div 3
     \<and> (\<forall>i. 0 < i \<and> i < n - 1 \<longrightarrow>
           unat (out ! (d + i * delta)) =
             (unat (buf ! (d + (i - 1) * delta)) + unat (buf ! (d + i * delta))
                + unat (buf ! (d + (i + 1) * delta)) + 1) div 3)"
proof -
  from assms(2) obtain k where k: "n = k + 3" by (metis add.commute le_Suc_ex)
  have len': "d + (k + 2) * delta < length buf" using assms(3) k by simp
  from blurDataTriplets_run [OF assms(1) len']
  obtain out where r: "blurDataTriplets buf (int d) (int (k + 3)) delta = Some out"
     and v0: "out ! d = word_of_int (firstAverage (buf ! d) (buf ! (d + delta)))"
     and vm: "\<forall>j\<le>k. out ! (d + (j + 1) * delta) =
            ucast (middleAverage (ucast (buf ! (d + j * delta)))
                     (buf ! (d + (j + 1) * delta)) (buf ! (d + (j + 2) * delta)))"
     and vl: "out ! (d + (k + 2) * delta) =
            ucast (finalAverage (ucast (buf ! (d + (k + 1) * delta))) (buf ! (d + (k + 2) * delta)))"
    by blast
  have first: "unat (out ! d) = (unat (buf ! d) + unat (buf ! (d + delta)) + 1) div 3"
    by (simp only: v0 unat_firstAverage)
  have final: "unat (out ! (d + (n - 1) * delta)) =
         (unat (buf ! (d + (n - 2) * delta)) + unat (buf ! (d + (n - 1) * delta)) + 1) div 3"
  proof -
    have "n - 1 = k + 2" "n - 2 = k + 1" using k by simp_all
    then show ?thesis by (simp only: vl unat_finalAverage)
  qed
  have middle: "unat (out ! (d + i * delta)) =
             (unat (buf ! (d + (i - 1) * delta)) + unat (buf ! (d + i * delta))
                + unat (buf ! (d + (i + 1) * delta)) + 1) div 3"
    if "0 < i \<and> i < n - 1" for i
  proof -
    have "\<exists>j. i = j + 1 \<and> j \<le> k" using that k by presburger
    then obtain j where j: "i = j + 1" "j \<le> k" by blast
    from vm j have "out ! (d + (j + 1) * delta) =
            ucast (middleAverage (ucast (buf ! (d + j * delta)))
                     (buf ! (d + (j + 1) * delta)) (buf ! (d + (j + 2) * delta)))" by blast
    then have "unat (out ! (d + (j + 1) * delta)) =
        (unat (buf ! (d + j * delta)) + unat (buf ! (d + (j + 1) * delta))
           + unat (buf ! (d + (j + 2) * delta)) + 1) div 3"
      by (simp only: unat_middleAverage)
    moreover have "i - 1 = j" "i + 1 = j + 2" using j by simp_all
    ultimately show ?thesis using j by simp
  qed
  show ?thesis using r first final middle k by auto
qed

theorem blurDataTriplets_three_tap_witness:
  "\<exists>out. blurDataTriplets [10, 20, 30, 40] (int 0) (int 4) 1 = Some out
     \<and> unat (out ! 0) = 10 \<and> unat (out ! 1) = 20 \<and> unat (out ! 2) = 30 \<and> unat (out ! 3) = 23"
proof -
  have h: "(0::nat) < 1" "(3::nat) \<le> 4" "0 + (4 - 1) * 1 < length [10, 20, 30, 40 :: uint8]"
    by simp_all
  from blurDataTriplets_three_tap [OF h]
  obtain out where r: "blurDataTriplets [10, 20, 30, 40] (int 0) (int 4) 1 = Some out"
    and a: "unat (out ! 0) = (unat ([10, 20, 30, 40 :: uint8] ! 0) + unat ([10, 20, 30, 40 :: uint8] ! (0 + 1)) + 1) div 3"
    and b: "unat (out ! (0 + (4 - 1) * 1)) =
         (unat ([10, 20, 30, 40 :: uint8] ! (0 + (4 - 2) * 1)) + unat ([10, 20, 30, 40 :: uint8] ! (0 + (4 - 1) * 1)) + 1) div 3"
    and c: "\<forall>i. 0 < i \<and> i < 4 - 1 \<longrightarrow>
           unat (out ! (0 + i * 1)) =
             (unat ([10, 20, 30, 40 :: uint8] ! (0 + (i - 1) * 1)) + unat ([10, 20, 30, 40 :: uint8] ! (0 + i * 1))
                + unat ([10, 20, 30, 40 :: uint8] ! (0 + (i + 1) * 1)) + 1) div 3"
    by blast
  from c [rule_format, of 1] have c1: "unat (out ! 1) = 20" by simp
  from c [rule_format, of 2] have "unat (out ! Suc (Suc 0)) = 30" by simp
  then have c2: "unat (out ! 2) = 30" by (simp only: numeral_2_eq_2)
  from a have a': "unat (out ! 0) = 10" by simp
  from b have b': "unat (out ! 3) = 23" by simp
  show ?thesis using r a' b' c1 c2 by blast
qed

section \<open>Claims about drawForImage and drawForPath\<close>

text \<open>
  Claim C7. An invalid source image makes \<open>drawForImage\<close> a no-op, whatever the
  shadow: no image is converted or created, no blur runs, and the drawing context
  receives no call. The heap of pixel data and the context come back as they were.
\<close>

theorem drawForImage_invalid_is_noop:
  "drawForImage conv s hp g None = Some (hp, g)"
  by (simp add: drawForImage_def isValid_def)

text \<open>
  Claim C6. When the area that \<open>drawForPath\<close> computes is at most 2 pixels wide or at
  most 2 pixels high, \<open>drawForPath\<close> creates no image, fills and blurs nothing and
  draws nothing: the heap of pixel data and the drawing context come back as they were.
\<close>

theorem drawForPath_degenerate_area_is_noop:
  assumes "getWidth (drawForPath_area s g p) \<le> 2 \<or> getHeight (drawForPath_area s g p) \<le> 2"
  shows "drawForPath s hp g p = Some (hp, g)"
  using assms by (auto simp: drawForPath_def Let_def)

theorem drawForPath_degenerate_area_is_noop_witness:
  "getWidth (drawForPath_area
       \<lparr>colour = 4278190080 :: uint32, radius = 4, offset = (2, 3)\<rparr>
       \<lparr>getClipBounds = \<lparr>getX = 0, getY = 0, getWidth = 10, getHeight = 10\<rparr>,
          calls = []\<rparr>
       \<lparr>integerBounds = \<lparr>getX = 100, getY = 100, getWidth = 5, getHeight = 5\<rparr>,
          coverage = (\<lambda>x y. 255)\<rparr>) = 0
   \<and> drawForPath
       \<lparr>colour = 4278190080 :: uint32, radius = 4, offset = (2, 3)\<rparr> []
       \<lparr>getClipBounds = \<lparr>getX = 0, getY = 0, getWidth = 10, getHeight = 10\<rparr>,
          calls = []\<rparr>
       \<lparr>integerBounds = \<lparr>getX = 100, getY = 100, getWidth = 5, getHeight = 5\<rparr>,
          coverage = (\<lambda>x y. 255)\<rparr>
     = Some ([], \<lparr>getClipBounds = \<lparr>getX = 0, getY = 0, getWidth = 10, getHeight = 10\<rparr>,
          calls = []\<rparr>)"
proof -
  let ?s = "\<lparr>colour = 4278190080 :: uint32, radius = 4, offset = (2, 3)\<rparr>"
  let ?g = "\<lparr>getClipBounds = \<lparr>getX = 0, getY = 0, getWidth = 10, getHeight = 10\<rparr>,
          calls = []\<rparr>"
  let ?p = "\<lparr>integerBounds = \<lparr>getX = 100, getY = 100, getWidth = 5, getHeight = 5\<rparr>,
          coverage = (\<lambda>x y. 255 :: uint8)\<rparr>"
  have w: "getWidth (drawForPath_area ?s ?g ?p) = 0"
    by (simp add: drawForPath_area_def getIntersection_def expanded_def translated_def int32_def
        Let_def)
  then have "getWidth (drawForPath_area ?s ?g ?p) \<le> 2 \<or> getHeight (drawForPath_area ?s ?g ?p) \<le> 2"
    by simp
  from drawForPath_degenerate_area_is_noop [OF this, of "[]"] w
  show ?thesis by simp
qed


lemma contains_expanded:
  assumes "0 \<le> getWidth r" and "0 \<le> d"
    and "\<bar>getX r\<bar> < 1073741824" and "\<bar>getY r\<bar> < 1073741824"
    and "getWidth r < 536870912" and "getHeight r < 536870912" and "0 \<le> getHeight r"
    and "d < 268435457"
  shows "getX (expanded r d) = getX r - d" and "getY (expanded r d) = getY r - d"
    and "getWidth (expanded r d) = getWidth r + 2 * d"
    and "getHeight (expanded r d) = getHeight r + 2 * d"
  using assms by (simp_all add: expanded_def int32_id)

lemma contains_getIntersection:
  assumes "\<bar>getX r\<bar> < 1073741824" and "\<bar>getY r\<bar> < 1073741824"
    and "0 \<le> getWidth r" and "getWidth r < 1073741824"
    and "0 \<le> getHeight r" and "getHeight r < 1073741824"
    and "\<bar>getX other\<bar> < 1073741824" and "\<bar>getY other\<bar> < 1073741824"
    and "0 \<le> getWidth other" and "getWidth other < 1073741824"
    and "0 \<le> getHeight other" and "getHeight other < 1073741824"
  shows "contains (getIntersection r other) q \<longleftrightarrow> contains r q \<and> contains other q"
proof -
  define nx ny mw mh where "nx = max (getX r) (getX other)"
    and "ny = max (getY r) (getY other)"
    and "mw = min (getX r + getWidth r) (getX other + getWidth other)"
    and "mh = min (getY r + getHeight r) (getY other + getHeight other)"
  have s: "int32 (getX r + getWidth r) = getX r + getWidth r"
    "int32 (getX other + getWidth other) = getX other + getWidth other"
    "int32 (getY r + getHeight r) = getY r + getHeight r"
    "int32 (getY other + getHeight other) = getY other + getHeight other"
    using assms by (simp_all add: int32_id)
  have bw: "- 2147483648 \<le> mw - nx" "mw - nx < 2147483648"
    using assms(1,3,4,7,9,10) unfolding mw_def nx_def by linarith+
  have bh: "- 2147483648 \<le> mh - ny" "mh - ny < 2147483648"
    using assms(2,5,6,8,11,12) unfolding mh_def ny_def by linarith+
  have d: "int32 (mw - nx) = mw - nx" "int32 (mh - ny) = mh - ny"
    using bw bh by (simp_all add: int32_id)
  have g: "getIntersection r other =
      (if mw - nx \<ge> 0 \<and> mh - ny \<ge> 0
       then \<lparr>getX = nx, getY = ny, getWidth = mw - nx, getHeight = mh - ny\<rparr>
       else \<lparr>getX = 0, getY = 0, getWidth = 0, getHeight = 0\<rparr>)"
    by (simp only: getIntersection_def Let_def s d
        nx_def [symmetric] ny_def [symmetric] mw_def [symmetric] mh_def [symmetric])
  show ?thesis
    unfolding g by (auto simp: contains_def nx_def ny_def mw_def mh_def)
qed

text \<open>
  Claim C2, as amended. For every shadow with a radius above zero and every path,
  where the radius, the offset, and the positions and sizes of the path's bounding
  box and of the clip bounds are below \<open>2^28\<close> in absolute value (so that no sum leaves
  the range of \<open>int\<close>), the area of \<open>drawForPath\<close> is the path's smallest integer
  bounding box, translated by the offset and expanded by \<open>radius + 1\<close> on each side,
  intersected with the clip bounds of the drawing context expanded by \<open>radius + 1\<close> on
  each side as well. Pixel by pixel: a pixel is in the area exactly when it is within
  \<open>radius + 1\<close> of the translated bounding box and within \<open>radius + 1\<close> of the clip
  bounds.
\<close>

theorem drawForPath_area_intersects_expanded_clip:
  assumes "0 < radius s" and "radius s < 268435456"
    and "\<bar>fst (offset s)\<bar> < 268435456" and "\<bar>snd (offset s)\<bar> < 268435456"
    and "\<bar>getX (integerBounds p)\<bar> < 268435456" and "\<bar>getY (integerBounds p)\<bar> < 268435456"
    and "0 \<le> getWidth (integerBounds p)" and "getWidth (integerBounds p) < 268435456"
    and "0 \<le> getHeight (integerBounds p)" and "getHeight (integerBounds p) < 268435456"
    and "\<bar>getX (getClipBounds g)\<bar> < 268435456" and "\<bar>getY (getClipBounds g)\<bar> < 268435456"
    and "0 \<le> getWidth (getClipBounds g)" and "getWidth (getClipBounds g) < 268435456"
    and "0 \<le> getHeight (getClipBounds g)" and "getHeight (getClipBounds g) < 268435456"
  shows "contains (drawForPath_area s g p) (x, y) \<longleftrightarrow>
           (getX (integerBounds p) + fst (offset s) - (radius s + 1) \<le> x
            \<and> x < getX (integerBounds p) + fst (offset s) + getWidth (integerBounds p) + (radius s + 1)
            \<and> getY (integerBounds p) + snd (offset s) - (radius s + 1) \<le> y
            \<and> y < getY (integerBounds p) + snd (offset s) + getHeight (integerBounds p) + (radius s + 1))
         \<and> (getX (getClipBounds g) - (radius s + 1) \<le> x
            \<and> x < getX (getClipBounds g) + getWidth (getClipBounds g) + (radius s + 1)
            \<and> getY (getClipBounds g) - (radius s + 1) \<le> y
            \<and> y < getY (getClipBounds g) + getHeight (getClipBounds g) + (radius s + 1))"
proof -
  let ?b = "integerBounds p" and ?c = "getClipBounds g" and ?d = "radius s + 1"
  let ?t = "translated ?b (offset s)"
  have r: "int32 (radius s + 1) = ?d"
    using assms(1,2) by (simp add: int32_id)
  have t: "getX ?t = getX ?b + fst (offset s)" "getY ?t = getY ?b + snd (offset s)"
    "getWidth ?t = getWidth ?b" "getHeight ?t = getHeight ?b"
    using assms by (simp_all add: translated_def int32_id)
  have d: "0 \<le> ?d" "?d < 268435457" using assms(1,2) by simp_all
  have e1: "getX (expanded ?t ?d) = getX ?b + fst (offset s) - ?d"
    "getY (expanded ?t ?d) = getY ?b + snd (offset s) - ?d"
    "getWidth (expanded ?t ?d) = getWidth ?b + 2 * ?d"
    "getHeight (expanded ?t ?d) = getHeight ?b + 2 * ?d"
    using assms t d by (simp_all add: contains_expanded)
  have e2: "getX (expanded ?c ?d) = getX ?c - ?d"
    "getY (expanded ?c ?d) = getY ?c - ?d"
    "getWidth (expanded ?c ?d) = getWidth ?c + 2 * ?d"
    "getHeight (expanded ?c ?d) = getHeight ?c + 2 * ?d"
    using assms d by (simp_all add: contains_expanded)
  have c: "contains (drawForPath_area s g p) (x, y) \<longleftrightarrow>
      contains (expanded ?t ?d) (x, y) \<and> contains (expanded ?c ?d) (x, y)"
    unfolding drawForPath_area_def r
    using assms by (intro contains_getIntersection) (simp_all only: e1 e2, simp_all)
  show ?thesis
    unfolding c by (simp add: contains_def e1 e2) linarith
qed

text \<open>
  Claim C2, a concrete run of the theorem: for a radius of 1, a path of bounds
  \<open>(0, 0, 100, 100)\<close> and clip bounds \<open>(10, 10, 20, 20)\<close>, the pixel \<open>(8, 31)\<close>, two
  pixels outside the clip bounds, is in the area, and the pixel \<open>(7, 31)\<close>, three pixels
  outside, is not.
\<close>

theorem drawForPath_area_intersects_expanded_clip_witness:
  "contains (drawForPath_area
       \<lparr>colour = 4278190080 :: uint32, radius = 1, offset = (0, 0)\<rparr>
       \<lparr>getClipBounds = \<lparr>getX = 10, getY = 10, getWidth = 20, getHeight = 20\<rparr>,
          calls = []\<rparr>
       \<lparr>integerBounds = \<lparr>getX = 0, getY = 0, getWidth = 100, getHeight = 100\<rparr>,
          coverage = (\<lambda>x y. 255)\<rparr>) (8, 31)
   \<and> \<not> contains (drawForPath_area
       \<lparr>colour = 4278190080 :: uint32, radius = 1, offset = (0, 0)\<rparr>
       \<lparr>getClipBounds = \<lparr>getX = 10, getY = 10, getWidth = 20, getHeight = 20\<rparr>,
          calls = []\<rparr>
       \<lparr>integerBounds = \<lparr>getX = 0, getY = 0, getWidth = 100, getHeight = 100\<rparr>,
          coverage = (\<lambda>x y. 255)\<rparr>) (7, 31)"
proof -
  let ?s = "\<lparr>colour = 4278190080 :: uint32, radius = 1, offset = (0, 0)\<rparr>"
  let ?g = "\<lparr>getClipBounds = \<lparr>getX = 10, getY = 10, getWidth = 20, getHeight = 20\<rparr>,
          calls = []\<rparr> :: uint32 graphics"
  let ?p = "\<lparr>integerBounds = \<lparr>getX = 0, getY = 0, getWidth = 100, getHeight = 100\<rparr>,
          coverage = (\<lambda>x y. 255 :: uint8)\<rparr>"
  have h: "0 < radius ?s" "radius ?s < 268435456"
    "\<bar>fst (offset ?s)\<bar> < 268435456" "\<bar>snd (offset ?s)\<bar> < 268435456"
    "\<bar>getX (integerBounds ?p)\<bar> < 268435456" "\<bar>getY (integerBounds ?p)\<bar> < 268435456"
    "0 \<le> getWidth (integerBounds ?p)" "getWidth (integerBounds ?p) < 268435456"
    "0 \<le> getHeight (integerBounds ?p)" "getHeight (integerBounds ?p) < 268435456"
    "\<bar>getX (getClipBounds ?g)\<bar> < 268435456" "\<bar>getY (getClipBounds ?g)\<bar> < 268435456"
    "0 \<le> getWidth (getClipBounds ?g)" "getWidth (getClipBounds ?g) < 268435456"
    "0 \<le> getHeight (getClipBounds ?g)" "getHeight (getClipBounds ?g) < 268435456"
    by simp_all
  from drawForPath_area_intersects_expanded_clip [OF h, of 8 31]
    drawForPath_area_intersects_expanded_clip [OF h, of 7 31]
  show ?thesis by simp
qed

text \<open>
  Claim C2 as stated, with the clip bounds themselves, fails: for a radius of 1, a
  path of bounds \<open>(0, 0, 100, 100)\<close> and clip bounds \<open>(10, 10, 20, 20)\<close> the area is
  \<open>(8, 8, 24, 24)\<close>, two pixels beyond the clip bounds on every side, where the
  intersection with the clip bounds is \<open>(10, 10, 20, 20)\<close>. And where a sum leaves the
  range of \<open>int\<close> the area is no intersection at all: with the offset
  \<open>(2147483647, 0)\<close>, a path of bounds \<open>(0, 0, 10, 10)\<close> and clip bounds
  \<open>(0, 0, 100, 100)\<close> the right edge of the moved bounding box wraps below zero and the
  area is \<open>(2147483645, -2, 14, 14)\<close>, far from the clip bounds.
\<close>

theorem drawForPath_area_clip_counterexample:
  "drawForPath_area
       \<lparr>colour = 4278190080 :: uint32, radius = 1, offset = (0, 0)\<rparr>
       \<lparr>getClipBounds = \<lparr>getX = 10, getY = 10, getWidth = 20, getHeight = 20\<rparr>,
          calls = []\<rparr>
       \<lparr>integerBounds = \<lparr>getX = 0, getY = 0, getWidth = 100, getHeight = 100\<rparr>,
          coverage = (\<lambda>x y. 255)\<rparr>
     = \<lparr>getX = 8, getY = 8, getWidth = 24, getHeight = 24\<rparr>
   \<and> getIntersection
       (expanded (translated \<lparr>getX = 0, getY = 0, getWidth = 100, getHeight = 100\<rparr> (0, 0)) (1 + 1))
       \<lparr>getX = 10, getY = 10, getWidth = 20, getHeight = 20\<rparr>
     = \<lparr>getX = 10, getY = 10, getWidth = 20, getHeight = 20\<rparr>
   \<and> drawForPath_area
       \<lparr>colour = 4278190080 :: uint32, radius = 1, offset = (2147483647, 0)\<rparr>
       \<lparr>getClipBounds = \<lparr>getX = 0, getY = 0, getWidth = 100, getHeight = 100\<rparr>,
          calls = []\<rparr>
       \<lparr>integerBounds = \<lparr>getX = 0, getY = 0, getWidth = 10, getHeight = 10\<rparr>,
          coverage = (\<lambda>x y. 255)\<rparr>
     = \<lparr>getX = 2147483645, getY = - 2, getWidth = 14, getHeight = 14\<rparr>"
  by (simp add: drawForPath_area_def getIntersection_def expanded_def translated_def int32_def
      Let_def)

section \<open>The pixel data of the caller\<close>




section \<open>Claims about memory safety\<close>

lemma blurDataTriplets_before_buffer: "d < 0 \<Longrightarrow> blurDataTriplets buf d num delta = None"
  by (simp add: blurDataTriplets_def peek_def)

lemma repeatBlur_safe:
  assumes delta: "0 < delta" and n: "3 \<le> n" and len: "d + (n - 1) * delta < length buf"
    and lo: "- 2147483648 \<le> i" and hi: "i < 2147483648"
  shows "\<exists>buf'. repeatBlur i buf (int d) (int n) delta = Some buf' \<and> length buf' = length buf"
proof -
  consider "0 < i" | "i \<le> 0" "- 2147483648 < i" | "i = - 2147483648"
    using lo by linarith
  then show ?thesis
  proof cases
    case 1
    then have "nat i < 2147483648" using hi by simp
    from repeatBlur_line [OF delta n len this] 1 show ?thesis by auto
  next
    case 2
    then have "int32 (i - 1) = i - 1" by (simp add: int32_id)
    then show ?thesis using 2 by (subst repeatBlur.simps) simp
  next
    case 3
    have w: "int32 (i - 1) = int 2147483647" using 3 by (simp add: int32_def)
    from blurDataTriplets_line [OF delta n len]
    obtain b1 where r1: "blurDataTriplets buf (int d) (int n) delta = Some b1"
      and l1: "length b1 = length buf" by blast
    have len1: "d + (n - 1) * delta < length b1" using l1 len by simp
    have "(2147483647::nat) < 2147483648" by simp
    from repeatBlur_line [OF delta n len1 this]
    obtain b2 where r2: "repeatBlur (int 2147483647) b1 (int d) (int n) delta = Some b2"
      and l2: "length b2 = length b1" by blast
    have "repeatBlur i buf (int d) (int n) delta = Some b2"
      using r1 r2 by (subst repeatBlur.simps) (simp only: w, simp)
    then show ?thesis using l1 l2 by simp
  qed
qed

lemma blurRows_safe:
  assumes w: "3 \<le> w" and stride: "w \<le> stride"
    and lo: "- 2147483648 \<le> reps" and hi: "reps < 2147483648"
    and off: "stride * (h - 1) < 2147483648"
  shows "stride * (h - 1) + w \<le> length buf \<Longrightarrow> y0 \<le> h \<Longrightarrow>
     \<exists>buf'. blurRows buf (int w) (int h) stride reps y0 = Some buf' \<and> length buf' = length buf"
proof (induction "h - y0" arbitrary: y0 buf)
  case 0
  then have "y0 = h" by simp
  then show ?case by (subst blurRows.simps) auto
next
  case (Suc m)
  then have y0: "y0 < h" by simp
  have le0: "stride * y0 \<le> stride * (h - 1)" using y0 by (intro mult_le_mono2) simp
  then have len0: "stride * y0 + (w - 1) * 1 < length buf" using Suc.prems(1) w by linarith
  have "int stride * int y0 = int (stride * y0)" by simp
  moreover have "int (stride * y0) < 2147483648" using le0 off by linarith
  ultimately have o32: "int32 (int stride * int y0) = int (stride * y0)"
    by (simp only: int32_id of_nat_0_le_iff order_trans [of "- 2147483648" 0])
  from repeatBlur_safe [OF _ w len0 lo hi]
  obtain b1 where r1: "repeatBlur reps buf (int (stride * y0)) (int w) 1 = Some b1"
    and l1: "length b1 = length buf"
    by auto
  have m: "m = h - (y0 + 1)" using Suc.hyps(2) by simp
  have len1: "stride * (h - 1) + w \<le> length b1" using l1 Suc.prems(1) by simp
  have le1: "y0 + 1 \<le> h" using y0 by simp
  from Suc.hyps(1) [OF m len1 le1]
  obtain b2 where r2: "blurRows b1 (int w) (int h) stride reps (y0 + 1) = Some b2"
    and l2: "length b2 = length b1"
    by blast
  have run: "blurRows buf (int w) (int h) stride reps y0 = Some b2"
    using y0 r1 r2 by (subst blurRows.simps) (simp only: o32, simp)
  show ?case using run l1 l2 by simp
qed

lemma blurColumns_safe:
  assumes h: "3 \<le> h" and stride: "w \<le> stride"
    and lo: "- 2147483648 \<le> reps" and hi: "reps < 2147483648"
  shows "stride * (h - 1) + w \<le> length buf \<Longrightarrow> x0 \<le> w \<Longrightarrow>
     \<exists>buf'. blurColumns buf (int w) (int h) stride reps x0 = Some buf' \<and> length buf' = length buf"
proof (induction "w - x0" arbitrary: x0 buf)
  case 0
  then have "x0 = w" by simp
  then show ?case by (subst blurColumns.simps) auto
next
  case (Suc m)
  then have x0: "x0 < w" by simp
  then have pos: "0 < stride" using stride by simp
  have len0: "x0 + (h - 1) * stride < length buf"
    using Suc.prems(1) x0 by (simp add: mult.commute)
  from repeatBlur_safe [OF pos h len0 lo hi]
  obtain b1 where r1: "repeatBlur reps buf (int x0) (int h) stride = Some b1"
    and l1: "length b1 = length buf"
    by auto
  have m: "m = w - (x0 + 1)" using Suc.hyps(2) by simp
  have len1: "stride * (h - 1) + w \<le> length b1" using l1 Suc.prems(1) by simp
  have le1: "x0 + 1 \<le> w" using x0 by simp
  from Suc.hyps(1) [OF m len1 le1]
  obtain b2 where r2: "blurColumns b1 (int w) (int h) stride reps (x0 + 1) = Some b2"
    and l2: "length b2 = length b1"
    by blast
  have run: "blurColumns buf (int w) (int h) stride reps x0 = Some b2"
    using x0 r1 r2 by (subst blurColumns.simps) simp
  show ?case using run l1 l2 by simp
qed

lemma blurSingleChannelImage_safe:
  assumes "3 \<le> w" and "3 \<le> h" and "w \<le> stride"
    and "stride * (h - 1) + w \<le> length buf"
    and "stride * (h - 1) < 2147483648"
    and "- 2147483648 \<le> reps" and "reps < 2147483648"
  shows "\<exists>out. blurSingleChannelImage buf (int w) (int h) stride reps = Some out
     \<and> length out = length buf"
proof -
  from blurRows_safe [OF assms(1,3,6,7,5,4), of 0]
  obtain b1 where r1: "blurRows buf (int w) (int h) stride reps 0 = Some b1"
    and l1: "length b1 = length buf" by auto
  have len1: "stride * (h - 1) + w \<le> length b1" using l1 assms(4) by simp
  from blurColumns_safe [OF assms(2,3,6,7) len1, of 0]
  obtain b2 where r2: "blurColumns b1 (int w) (int h) stride reps 0 = Some b2"
    and l2: "length b2 = length b1" by auto
  show ?thesis using r1 r2 l1 l2 by (simp add: blurSingleChannelImage_def)
qed

text \<open>
  Claim C9, as amended. For every buffer with a width and a height above 2, a line
  stride of at least the width, and the offset of its last row within the range of
  \<open>int\<close> (\<open>lineStride * (height - 1) < 2^31\<close>), \<open>blurSingleChannelImage\<close> returns for
  every number of repetitions: every read and every write of it and of
  \<open>blurDataTriplets\<close> is inside the buffer, whose length does not change. Every
  average the passes compute (\<open>last\<close> is always a byte of the buffer, widened) is at
  most 255, and its cast to \<open>uint8\<close> has the same value. \<open>drawForImage\<close> blurs its
  source image without looking at its dimensions: a valid single-channel image of 3 by 2
  pixels makes the blur read outside the pixel data.
\<close>

theorem blur_stays_in_buffer:
  assumes "3 \<le> w" and "3 \<le> h" and "w \<le> stride"
    and "stride * (h - 1) + w \<le> length buf"
    and "stride * (h - 1) < 2147483648"
    and "- 2147483648 \<le> reps" and "reps < 2147483648"
  shows "(\<exists>out. blurSingleChannelImage buf (int w) (int h) stride reps = Some out
            \<and> length out = length buf)
     \<and> (0 \<le> firstAverage a b \<and> firstAverage a b \<le> 255
          \<and> uint (word_of_int (firstAverage a b) :: uint8) = firstAverage a b)
     \<and> (unat (middleAverage (ucast (x :: uint8)) a b) \<le> 255
          \<and> unat (ucast (middleAverage (ucast x) a b) :: uint8)
              = unat (middleAverage (ucast x) a b))
     \<and> (unat (finalAverage (ucast x) a) \<le> 255
          \<and> unat (ucast (finalAverage (ucast x) a) :: uint8) = unat (finalAverage (ucast x) a))
     \<and> drawForImage (\<lambda>f d. bitmap d)
           \<lparr>colour = 4278190080 :: uint32, radius = 1, offset = (2, 3)\<rparr>
           [\<lparr>pixelFormat = SingleChannel,
              bitmap = \<lparr>data = [10, 20, 30, 40, 50, 60], width = 3, height = 2, lineStride = 3\<rparr>,
              referenceCount = 1\<rparr>]
           \<lparr>getClipBounds = \<lparr>getX = 0, getY = 0, getWidth = 10, getHeight = 10\<rparr>,
              calls = []\<rparr>
           (Some 0) = None"
proof -
  have ba: "unat a < 256" and bb: "unat b < 256" and bx: "unat x < 256"
    by (rule unat_uint8_bound)+
  have f1: "firstAverage a b = int ((unat a + unat b + 1) div 3)"
    by (simp add: firstAverage_def zdiv_int)
  have f2: "(unat a + unat b + 1) div 3 \<le> 255" using ba bb by simp
  have first: "0 \<le> firstAverage a b \<and> firstAverage a b \<le> 255
          \<and> uint (word_of_int (firstAverage a b) :: uint8) = firstAverage a b"
  proof -
    have "uint (word_of_int (firstAverage a b) :: uint8)
        = int (unat (word_of_int (firstAverage a b) :: uint8))" by simp
    also have "\<dots> = int ((unat a + unat b + 1) div 3)" by (simp only: unat_firstAverage)
    finally show ?thesis using f1 f2 by simp
  qed
  have m: "unat (middleAverage (ucast x) a b) \<le> 255"
    using ba bb bx by (simp add: unat_middleAverage_wide)
  have fi: "unat (finalAverage (ucast x) a) \<le> 255"
    using ba bx by (simp add: unat_finalAverage_wide)
  have middle: "unat (ucast (middleAverage (ucast x) a b) :: uint8)
              = unat (middleAverage (ucast x) a b)"
    by (simp only: unat_middleAverage unat_middleAverage_wide)
  have final: "unat (ucast (finalAverage (ucast x) a) :: uint8) = unat (finalAverage (ucast x) a)"
    by (simp only: unat_finalAverage unat_finalAverage_wide)
  have img: "drawForImage (\<lambda>f d. bitmap d)
           \<lparr>colour = 4278190080 :: uint32, radius = 1, offset = (2, 3)\<rparr>
           [\<lparr>pixelFormat = SingleChannel,
              bitmap = \<lparr>data = [10, 20, 30, 40, 50, 60], width = 3, height = 2, lineStride = 3\<rparr>,
              referenceCount = 1\<rparr>]
           \<lparr>getClipBounds = \<lparr>getX = 0, getY = 0, getWidth = 10, getHeight = 10\<rparr>,
              calls = []\<rparr>
           (Some 0) = None"
    by code_simp
  from blurSingleChannelImage_safe [OF assms] first m middle fi final img
  show ?thesis by blast
qed

theorem blur_stays_in_buffer_witness:
  "blurSingleChannelImage [90, 0, 0, 7, 0, 255, 0, 7, 0, 0, 200] (int 3) (int 3) 4 2
     = Some [20, 28, 20, 7, 28, 43, 31, 7, 20, 31, 24]
   \<and> firstAverage 255 255 = 170
   \<and> unat (middleAverage (ucast (255 :: uint8)) 255 255) = 255
   \<and> unat (finalAverage (ucast (255 :: uint8)) 255) = 170"
proof -
  have h: "(3::nat) \<le> 3" "(3::nat) \<le> 3" "(3::nat) \<le> 4"
    "4 * (3 - 1) + 3 \<le> length [90, 0, 0, 7, 0, 255, 0, 7, 0, 0, 200 :: uint8]"
    "(4::nat) * (3 - 1) < 2147483648" "- 2147483648 \<le> (2::int)" "(2::int) < 2147483648"
    by simp_all
  from blur_stays_in_buffer [OF h, of 255 255 255]
  obtain out where
    "blurSingleChannelImage [90, 0, 0, 7, 0, 255, 0, 7, 0, 0, 200] (int 3) (int 3) 4 2 = Some out"
    by blast
  moreover have
    "blurSingleChannelImage [90, 0, 0, 7, 0, 255, 0, 7, 0, 0, 200] (int 3) (int 3) 4 2
       = Some [20, 28, 20, 7, 28, 43, 31, 7, 20, 31, 24]"
    by code_simp
  moreover have "firstAverage 255 255 = 170" by (simp add: firstAverage_def)
  moreover have "unat (middleAverage (ucast (255 :: uint8)) 255 255) = 255"
    by (simp only: unat_middleAverage_wide) simp
  moreover have "unat (finalAverage (ucast (255 :: uint8)) 255) = 170"
    by (simp only: unat_finalAverage_wide) simp
  ultimately show ?thesis by blast
qed

text \<open>
  Claim C9 as stated, for every buffer, fails on a buffer of 3 GiB: 3 by 3 pixels with
  a line stride of \<open>2^30\<close>. The offset of the third row, \<open>lineStride * 2\<close>, does not fit
  an \<open>int\<close>; it wraps to \<open>- 2^31\<close> and the first read of that row is before the
  buffer.
\<close>

theorem blur_stays_in_buffer_counterexample:
  "length (replicate 3221225472 (0 :: uint8)) = 1073741824 * 3
   \<and> blurSingleChannelImage (replicate 3221225472 0) 3 3 1073741824 1 = None"
proof -
  let ?buf = "replicate 3221225472 (0 :: uint8)"
  have lo: "- 2147483648 \<le> (1::int)" and hi: "(1::int) < 2147483648" by simp_all
  have len0: "0 + (3 - 1) * 1 < length ?buf" by simp
  from repeatBlur_safe [OF _ _ len0 lo hi]
  obtain b1 where r1: "repeatBlur 1 ?buf (int 0) (int 3) 1 = Some b1"
    and l1: "length b1 = length ?buf" by auto
  have len1: "1073741824 + (3 - 1) * 1 < length b1" using l1 by simp
  from repeatBlur_safe [OF _ _ len1 lo hi]
  obtain b2 where r2: "repeatBlur 1 b1 (int 1073741824) (int 3) 1 = Some b2"
    and l2: "length b2 = length b1" by auto
  have o0: "int32 (int 1073741824 * int 0) = int 0" by (simp add: int32_def)
  have o1: "int32 (int 1073741824 * int (0 + 1)) = int 1073741824" by (simp add: int32_def)
  have o2: "int32 (int 1073741824 * int (0 + 1 + 1)) = - 2147483648" by (simp add: int32_def)
  have dec: "int32 0 = 0" by (simp add: int32_def)
  have r3: "repeatBlur 1 b2 (- 2147483648) (int 3) 1 = None"
    by (subst repeatBlur.simps) (simp add: dec blurDataTriplets_before_buffer)
  have y3: "blurRows b2 (int 3) (int 3) 1073741824 1 (0 + 1 + 1) = None"
    by (subst blurRows.simps) (simp only: o2 r3 option.case, simp)
  have y2: "blurRows b1 (int 3) (int 3) 1073741824 1 (0 + 1) = None"
    by (subst blurRows.simps) (simp only: o1 r2 option.case y3, simp)
  have y1: "blurRows ?buf (int 3) (int 3) 1073741824 1 0 = None"
    by (subst blurRows.simps) (simp only: o0 r1 option.case y2, simp)
  have "blurSingleChannelImage ?buf (int 3) (int 3) 1073741824 1 = None"
    by (simp only: blurSingleChannelImage_def y1 option.case)
  then show ?thesis by simp
qed

section \<open>Claims about the blur of an image\<close>

lemma blur_fails_on_wide_stride:
  assumes "0 < n" and "n < 2147483648"
  shows "blurSingleChannelImage (replicate 3221225472 0) 3 3 1073741824 n = None"
proof -
  let ?buf = "replicate 3221225472 (0 :: uint8)"
  have lo: "- 2147483648 \<le> n" using assms(1) by simp
  have len0: "0 + (3 - 1) * 1 < length ?buf" by simp
  from repeatBlur_safe [OF _ _ len0 lo assms(2)]
  obtain b1 where r1: "repeatBlur n ?buf (int 0) (int 3) 1 = Some b1"
    and l1: "length b1 = length ?buf" by auto
  have len1: "1073741824 + (3 - 1) * 1 < length b1" using l1 by simp
  from repeatBlur_safe [OF _ _ len1 lo assms(2)]
  obtain b2 where r2: "repeatBlur n b1 (int 1073741824) (int 3) 1 = Some b2"
    and l2: "length b2 = length b1" by auto
  have o0: "int32 (int 1073741824 * int 0) = int 0" by (simp add: int32_def)
  have o1: "int32 (int 1073741824 * int (0 + 1)) = int 1073741824" by (simp add: int32_def)
  have o2: "int32 (int 1073741824 * int (0 + 1 + 1)) = - 2147483648" by (simp add: int32_def)
  have dec: "0 \<le> int32 (n - 1)" using assms by (simp add: int32_id)
  have r3: "repeatBlur n b2 (- 2147483648) (int 3) 1 = None"
    by (subst repeatBlur.simps) (simp add: dec blurDataTriplets_before_buffer)
  have y3: "blurRows b2 (int 3) (int 3) 1073741824 n (0 + 1 + 1) = None"
    by (subst blurRows.simps) (simp only: o2 r3 option.case, simp)
  have y2: "blurRows b1 (int 3) (int 3) 1073741824 n (0 + 1) = None"
    by (subst blurRows.simps) (simp only: o1 r2 option.case y3, simp)
  have y1: "blurRows ?buf (int 3) (int 3) 1073741824 n 0 = None"
    by (subst blurRows.simps) (simp only: o0 r1 option.case y2, simp)
  have "blurSingleChannelImage ?buf (int 3) (int 3) 1073741824 n = None"
    by (simp only: blurSingleChannelImage_def y1 option.case)
  then show ?thesis by simp
qed

text \<open>
  Claim C1, as amended. For every radius above zero and below \<open>2^30\<close> and every bitmap
  of at least 3 by 3 pixels whose rows lie inside its pixel data (a line stride of at
  least the width, the last row ending within the data) and whose row offsets are
  within the range of \<open>int\<close> (\<open>lineStride * (height - 1) < 2^31\<close>), the blur returns, and
  its pixels are those of the specification's separable blur: exactly \<open>2 * radius\<close>
  passes of the 3-tap running average over every row, followed by exactly
  \<open>2 * radius\<close> passes over every column. The radius counts passes; the kernel stays
  three taps wide. The bytes between the rows are unchanged.
\<close>

theorem blur_is_2radius_row_then_column_passes:
  assumes "0 < r" and "r < 1073741824"
    and "width bm = int w" and "height bm = int h"
    and "3 \<le> w" and "3 \<le> h" and "w \<le> lineStride bm"
    and "lineStride bm * (h - 1) + w \<le> length (data bm)"
    and "lineStride bm * (h - 1) < 2147483648"
  shows "\<exists>out. blurSingleChannelImage_bitmap bm r = Some (bm\<lparr>data := out\<rparr>)
     \<and> length out = length (data bm)
     \<and> rowsOf out w h (lineStride bm) = separableBlur (nat r) (rowsOf (data bm) w h (lineStride bm))
     \<and> (\<forall>i. (\<forall>y x. y < h \<and> x < w \<longrightarrow> i \<noteq> lineStride bm * y + x) \<longrightarrow> out ! i = data bm ! i)"
proof -
  have n: "int32 (2 * r) = int (2 * nat r)" using assms(1,2) by (simp add: int32_id)
  have n': "2 * nat r < 2147483648" using assms(1,2) by simp
  from blurSingleChannelImage_spec [OF assms(5,6,7,8) n' assms(9)]
  show ?thesis
    unfolding blurSingleChannelImage_bitmap_def separableBlur_def assms(3,4) n by auto
qed

theorem blur_is_2radius_row_then_column_passes_witness:
  "\<exists>out. blurSingleChannelImage_bitmap
            \<lparr>data = [90, 0, 0, 7, 0, 255, 0, 7, 0, 0, 200, 7], width = 3, height = 3, lineStride = 4\<rparr> 1
          = Some \<lparr>data = out, width = 3, height = 3, lineStride = 4\<rparr>
     \<and> rowsOf out 3 3 4 = separableBlur 1 [[90, 0, 0], [0, 255, 0], [0, 0, 200]]
     \<and> out ! 3 = 7 \<and> out ! 7 = 7 \<and> out ! 11 = 7"
proof -
  let ?bm = "\<lparr>data = [90, 0, 0, 7, 0, 255, 0, 7, 0, 0, 200, 7 :: uint8],
              width = 3, height = 3, lineStride = 4\<rparr>"
  have h: "(0::int) < 1" "(1::int) < 1073741824"
    "width ?bm = int 3" "height ?bm = int 3" "(3::nat) \<le> 3" "(3::nat) \<le> 3"
    "3 \<le> lineStride ?bm" "lineStride ?bm * (3 - 1) + 3 \<le> length (data ?bm)"
    "lineStride ?bm * (3 - 1) < 2147483648"
    by simp_all
  from blur_is_2radius_row_then_column_passes [OF h]
  obtain out where r: "blurSingleChannelImage_bitmap ?bm 1 = Some (?bm\<lparr>data := out\<rparr>)"
    and v: "rowsOf out 3 3 (lineStride ?bm) = separableBlur (nat 1) (rowsOf (data ?bm) 3 3 (lineStride ?bm))"
    and f: "\<forall>i. (\<forall>y x. y < 3 \<and> x < 3 \<longrightarrow> i \<noteq> lineStride ?bm * y + x) \<longrightarrow> out ! i = data ?bm ! i"
    by blast
  have rows: "rowsOf (data ?bm) 3 3 (lineStride ?bm) = [[90, 0, 0], [0, 255, 0], [0, 0, 200]]"
    by code_simp
  have pad: "\<forall>y x. y < 3 \<and> x < 3 \<longrightarrow> i \<noteq> lineStride ?bm * y + x" if "i = 3 \<or> i = 7 \<or> i = 11" for i :: nat
    using that by (auto simp: less_Suc_eq numeral_3_eq_3)
  have same: "out ! i = data ?bm ! i" if "i = 3 \<or> i = 7 \<or> i = 11" for i
    using f pad [OF that] by blast
  have "out ! 3 = 7" "out ! 7 = 7" "out ! 11 = 7"
    using same [of 3] same [of 7] same [of 11] by simp_all
  then show ?thesis using r v rows by simp
qed

text \<open>
  Claim C1 as stated, for every radius above zero, fails at the radius \<open>2^30 + 1\<close>:
  \<open>2 * radius\<close> does not fit an \<open>int\<close>, the count wraps below zero and no pass runs at
  all, while \<open>2 * radius\<close> passes of the running average turn nine pixels of value 2
  into nine pixels of value 1. It also fails, at the radius 1, on a bitmap of 3 by 3
  pixels with a line stride of \<open>2^30\<close> in pixel data of 3 GiB: the offset of the third
  row wraps to \<open>- 2^31\<close>, the first pass of that row reads before the pixel data and
  the blur does not return.
\<close>

theorem blur_2radius_passes_counterexample:
  "blurSingleChannelImage_bitmap
      \<lparr>data = [2, 2, 2, 2, 2, 2, 2, 2, 2], width = 3, height = 3, lineStride = 3\<rparr> 1073741825
     = Some \<lparr>data = [2, 2, 2, 2, 2, 2, 2, 2, 2], width = 3, height = 3, lineStride = 3\<rparr>
   \<and> rowsOf [2, 2, 2, 2, 2, 2, 2, 2, 2] 3 3 3 = [[2, 2, 2], [2, 2, 2], [2, 2, 2]]
   \<and> separableBlur (nat 1073741825) [[2, 2, 2], [2, 2, 2], [2, 2, 2]]
         = [[1, 1, 1], [1, 1, 1], [1, 1, 1]]
   \<and> length (replicate 3221225472 (0 :: uint8)) = 1073741824 * 2 + 1073741824
   \<and> blurSingleChannelImage_bitmap
        \<lparr>data = replicate 3221225472 0, width = 3, height = 3, lineStride = 1073741824\<rparr> 1
       = None"
proof -
  let ?ones = "[[1, 1, 1], [1, 1, 1], [1, 1, 1 :: uint8]]"
  let ?twos = "[[2, 2, 2], [2, 2, 2], [2, 2, 2 :: uint8]]"
  have code: "blurSingleChannelImage_bitmap
      \<lparr>data = [2, 2, 2, 2, 2, 2, 2, 2, 2], width = 3, height = 3, lineStride = 3\<rparr> 1073741825
     = Some \<lparr>data = [2, 2, 2, 2, 2, 2, 2, 2, 2], width = 3, height = 3, lineStride = 3\<rparr>"
    by code_simp
  have rows: "rowsOf [2, 2, 2, 2, 2, 2, 2, 2, 2] 3 3 3 = ?twos"
    by code_simp
  have two: "(rowPass ^^ 2) ?twos = ?ones" by code_simp
  have fr: "rowPass ?ones = ?ones" by code_simp
  have fc: "columnPass ?ones = ?ones" by code_simp
  have n: "2 * nat 1073741825 = 2147483648 + 2" by simp
  have "(rowPass ^^ (2147483648 + 2)) ?twos = (rowPass ^^ 2147483648) ((rowPass ^^ 2) ?twos)"
    by (simp only: funpow_add comp_apply)
  also have "\<dots> = ?ones"
    by (simp only: two funpow_fixed [of rowPass ?ones, OF fr])
  finally have "(rowPass ^^ (2 * nat 1073741825)) ?twos = ?ones" by (simp only: n)
  then have "separableBlur (nat 1073741825) ?twos = ?ones"
    by (simp only: separableBlur_def funpow_fixed [of columnPass ?ones, OF fc])
  moreover have "blurSingleChannelImage_bitmap
        \<lparr>data = replicate 3221225472 0, width = 3, height = 3, lineStride = 1073741824\<rparr> 1
       = None"
  proof -
    have "int32 (2 * 1) = 2" by (simp add: int32_def)
    moreover have "blurSingleChannelImage (replicate 3221225472 0) 3 3 1073741824 2 = None"
      by (rule blur_fails_on_wide_stride) simp_all
    ultimately show ?thesis by (simp add: blurSingleChannelImage_bitmap_def)
  qed
  ultimately show ?thesis using code rows by simp
qed

section \<open>Claims about the pixel data of the caller\<close>






section \<open>Claims about the gradient of drawForRectangle\<close>

text \<open>
  Claim C4, as amended. For every colour, the gradient that \<open>drawForRectangle\<close> builds
  has exactly twelve colour stops: the colour at position 0, the colour with alpha 0
  at position 1, and between them ten stops, one for each value of \<open>i\<close> that the loop
  reaches, at the position \<open>1.0 - i\<close> and with the colour
  \<open>colour.withMultipliedAlpha (i * i)\<close>. The ten values of \<open>i\<close> are the floats that
  adding \<open>0.1f\<close> nine times to \<open>0.05f\<close> gives, each within \<open>10^-6\<close> of 0.05, 0.15, ...,
  0.95 and each below \<open>1.0f\<close>; the next one is not below \<open>1.0f\<close>, and the loop returns.
\<close>

theorem drawForRectangle_gradient_has_twelve_stops:
  fixes steps :: "binary list"
  defines "steps \<equiv>
     [\<lparr>mantissa = 13421773, exponent = - 28\<rparr>, \<lparr>mantissa = 10066330, exponent = - 26\<rparr>,
      \<lparr>mantissa = 8388608, exponent = - 25\<rparr>, \<lparr>mantissa = 11744051, exponent = - 25\<rparr>,
      \<lparr>mantissa = 15099494, exponent = - 25\<rparr>, \<lparr>mantissa = 9227469, exponent = - 24\<rparr>,
      \<lparr>mantissa = 10905191, exponent = - 24\<rparr>, \<lparr>mantissa = 12582913, exponent = - 24\<rparr>,
      \<lparr>mantissa = 14260635, exponent = - 24\<rparr>, \<lparr>mantissa = 15938357, exponent = - 24\<rparr>]"
  shows "drawForRectangle_gradient withAlpha withMultipliedAlpha c =
           Some \<lparr>point1 = (f_0_0, f_0_0), point2 = (f_0_0, f_0_0), isRadial = False,
                  colours = (f_0_0, c)
                    # map (\<lambda>i. (fsub 53 f_1_0 i, withMultipliedAlpha c (fmul 24 i i))) (rev steps)
                    @ [(f_1_0, withAlpha c f_0_0)]\<rparr>
     \<and> length ((f_0_0, c)
                    # map (\<lambda>i. (fsub 53 f_1_0 i, withMultipliedAlpha c (fmul 24 i i))) (rev steps)
                    @ [(f_1_0, withAlpha c f_0_0)]) = 12
     \<and> hd steps = f_0_05 \<and> tl steps = map (\<lambda>i. fadd 24 i f_0_1) (butlast steps)
     \<and> map (\<lambda>i. fless i f_1_0) steps = replicate 10 True
     \<and> \<not> fless (fadd 24 (last steps) f_0_1) f_1_0
     \<and> map (\<lambda>k. \<bar>valueOf (steps ! k) - (5 + 10 * of_nat k) / 100\<bar> < 1 / 10 ^ 6) [0..<10]
         = replicate 10 True"
proof -
  have g: "drawForRectangle_gradient withAlpha withMultipliedAlpha c =
           Some \<lparr>point1 = (f_0_0, f_0_0), point2 = (f_0_0, f_0_0), isRadial = False,
                  colours = (f_0_0, c)
                    # map (\<lambda>i. (fsub 53 f_1_0 i, withMultipliedAlpha c (fmul 24 i i))) (rev steps)
                    @ [(f_1_0, withAlpha c f_0_0)]\<rparr>"
    unfolding steps_def
    by (simp add: drawForRectangle_gradient_def alphaFalloffLoop.simps newColourGradient_def
        addColour_def fless_def fadd_def fsub_def fmul_def roundTo_def excessBits.simps
        roundHalfEven_def scaled_def f_0_05_def f_0_1_def f_1_0_def f_0_0_def ofInt_def Let_def)
  have l: "length ((f_0_0, c)
                    # map (\<lambda>i. (fsub 53 f_1_0 i, withMultipliedAlpha c (fmul 24 i i))) (rev steps)
                    @ [(f_1_0, withAlpha c f_0_0)]) = 12"
    by (simp add: steps_def)
  have s: "hd steps = f_0_05 \<and> tl steps = map (\<lambda>i. fadd 24 i f_0_1) (butlast steps)"
    unfolding steps_def by code_simp
  have b: "map (\<lambda>i. fless i f_1_0) steps = replicate 10 True"
    unfolding steps_def by code_simp
  have e: "\<not> fless (fadd 24 (last steps) f_0_1) f_1_0"
    unfolding steps_def by code_simp
  have v: "map (\<lambda>k. \<bar>valueOf (steps ! k) - (5 + 10 * of_nat k) / 100\<bar> < 1 / 10 ^ 6) [0..<10]
         = replicate 10 True"
    unfolding steps_def by code_simp
  show ?thesis using g l s b e v by blast
qed

text \<open>
  Claim C4 as stated, eleven colour stops, fails for every colour: the gradient has
  twelve, here for opaque black and colour operations that leave the colour alone.
\<close>

theorem drawForRectangle_gradient_stops_counterexample:
  "map_option (\<lambda>cg. length (colours cg))
     (drawForRectangle_gradient (\<lambda>c a. c) (\<lambda>c a. c) (4278190080 :: uint32)) = Some 12"
  by (simp add: drawForRectangle_gradient_def alphaFalloffLoop.simps newColourGradient_def
        addColour_def fless_def fadd_def fsub_def fmul_def roundTo_def excessBits.simps
        roundHalfEven_def scaled_def f_0_05_def f_0_1_def f_1_0_def f_0_0_def ofInt_def Let_def)

section \<open>Claims about DropShadowEffect\<close>

lemma excessBits_small: "m < 2 ^ p \<Longrightarrow> excessBits p m = 0"
  by (subst excessBits.simps) simp

lemma roundTo_small: "\<bar>mantissa a\<bar> < 2 ^ p \<Longrightarrow> roundTo p a = a"
  by (simp add: roundTo_def excessBits_small roundHalfEven_def Let_def mult_sgn_abs)

lemma scale_by_one_small:
  assumes "\<bar>n\<bar> < 16777216"
  shows "roundToInt (fmul 24 (ofInt 24 n) f_1_0) = n"
proof -
  have a: "ofInt 24 n = \<lparr>mantissa = n, exponent = 0\<rparr>"
    using assms by (simp add: ofInt_def roundTo_small)
  have b: "fmul 24 \<lparr>mantissa = n, exponent = 0\<rparr> f_1_0 = \<lparr>mantissa = n, exponent = 0\<rparr>"
    using assms by (simp add: fmul_def f_1_0_def roundTo_small)
  have c: "int32 n = n" using assms by (intro int32_id) linarith+
  show ?thesis by (simp add: a b roundToInt_def c)
qed

lemma scale_by_one:
  assumes "\<bar>n\<bar> \<le> 16777216"
  shows "roundToInt (fmul 24 (ofInt 24 n) f_1_0) = n"
proof -
  consider "\<bar>n\<bar> < 16777216" | "n = 16777216" | "n = - 16777216"
    using assms by linarith
  then show ?thesis
  proof cases
    case 1 then show ?thesis by (rule scale_by_one_small)
  next
    case 2
    have "roundToInt (fmul 24 (ofInt 24 16777216) f_1_0) = 16777216" by code_simp
    then show ?thesis using 2 by simp
  next
    case 3
    have "roundToInt (fmul 24 (ofInt 24 (- 16777216)) f_1_0) = - 16777216" by code_simp
    then show ?thesis using 3 by simp
  qed
qed

text \<open>
  Claim C5, as amended. For every image and every drawing context, \<open>applyEffect\<close> with
  a scale factor of 1.0 and an alpha of 1.0, on a shadow whose radius and offset are at
  most \<open>2^24\<close> in absolute value (so that their conversion to \<open>float\<close> is exact) and whose
  colour \<open>withMultipliedAlpha (1.0f)\<close> returns unchanged, makes the same calls as
  \<open>drawForImage\<close> of the stored shadow followed by \<open>setOpacity (1.0f)\<close> and the drawing
  of the source image at \<open>(0, 0)\<close>.
\<close>

theorem applyEffect_at_unit_scale_and_alpha:
  assumes "\<bar>radius shadow\<bar> \<le> 16777216"
    and "\<bar>fst (offset shadow)\<bar> \<le> 16777216" and "\<bar>snd (offset shadow)\<bar> \<le> 16777216"
    and "withMultipliedAlpha (colour shadow) f_1_0 = colour shadow"
  shows "applyEffect withMultipliedAlpha conv shadow hp g img f_1_0 f_1_0 =
     (case drawForImage conv shadow hp g img of None \<Rightarrow> None
      | Some (hp', g') \<Rightarrow> Some (hp', drawImageAt (setOpacity g' f_1_0) hp' img 0 0 False))"
proof -
  have "shadow\<lparr>radius := radius shadow, colour := colour shadow,
           offset := (fst (offset shadow), snd (offset shadow))\<rparr> = shadow"
    by simp
  then show ?thesis
    unfolding applyEffect_def
    by (simp add: Let_def scale_by_one [OF assms(1)] scale_by_one [OF assms(2)]
        scale_by_one [OF assms(3)] assms(4))
qed

text \<open>
  Claim C5, a concrete run of the theorem: a shadow of radius 1 at offset \<open>(2, 3)\<close> on a
  shared single-channel image of three by three pixels. The effect draws the blurred
  copy at \<open>(2, 3)\<close> in the shadow's colour, sets the opacity to 1.0 and draws the source
  image, unchanged, at \<open>(0, 0)\<close>.
\<close>

theorem applyEffect_at_unit_scale_and_alpha_witness:
  "applyEffect (\<lambda>c a. c) (\<lambda>f d. bitmap d)
       \<lparr>colour = 4278190080 :: uint32, radius = 1, offset = (2, 3)\<rparr>
       [\<lparr>pixelFormat = SingleChannel,
          bitmap = \<lparr>data = [90, 0, 0, 0, 255, 0, 0, 0, 200], width = 3, height = 3,
                     lineStride = 3\<rparr>,
          referenceCount = 2\<rparr>]
       \<lparr>getClipBounds = \<lparr>getX = 0, getY = 0, getWidth = 10, getHeight = 10\<rparr>,
          calls = []\<rparr>
       (Some 0) f_1_0 f_1_0
     = Some
        ([\<lparr>pixelFormat = SingleChannel,
            bitmap = \<lparr>data = [90, 0, 0, 0, 255, 0, 0, 0, 200], width = 3, height = 3,
                       lineStride = 3\<rparr>,
            referenceCount = 2\<rparr>,
          \<lparr>pixelFormat = SingleChannel,
            bitmap = \<lparr>data = [20, 28, 20, 28, 43, 31, 20, 31, 24], width = 3, height = 3,
                       lineStride = 3\<rparr>,
            referenceCount = 0\<rparr>],
         \<lparr>getClipBounds = \<lparr>getX = 0, getY = 0, getWidth = 10, getHeight = 10\<rparr>,
            calls =
              [SetColour 4278190080,
               DrawImageAt
                 \<lparr>data = [20, 28, 20, 28, 43, 31, 20, 31, 24], width = 3, height = 3,
                    lineStride = 3\<rparr> 2 3 True,
               SetOpacity f_1_0,
               DrawImageAt
                 \<lparr>data = [90, 0, 0, 0, 255, 0, 0, 0, 200], width = 3, height = 3,
                    lineStride = 3\<rparr> 0 0 False]\<rparr>)"
proof -
  let ?src = "\<lparr>pixelFormat = SingleChannel,
          bitmap = \<lparr>data = [90, 0, 0, 0, 255, 0, 0, 0, 200 :: uint8], width = 3, height = 3,
                     lineStride = 3\<rparr>,
          referenceCount = 2\<rparr>"
  let ?copy = "\<lparr>pixelFormat = SingleChannel,
            bitmap = \<lparr>data = [20, 28, 20, 28, 43, 31, 20, 31, 24 :: uint8], width = 3, height = 3,
                       lineStride = 3\<rparr>,
            referenceCount = 0\<rparr>"
  let ?s = "\<lparr>colour = 4278190080 :: uint32, radius = 1, offset = (2, 3)\<rparr>"
  let ?g = "\<lparr>getClipBounds = \<lparr>getX = 0, getY = 0, getWidth = 10, getHeight = 10\<rparr>,
          calls = []\<rparr> :: uint32 graphics"
  let ?g' = "\<lparr>getClipBounds = \<lparr>getX = 0, getY = 0, getWidth = 10, getHeight = 10\<rparr>,
            calls =
              [SetColour (4278190080 :: uint32), DrawImageAt
                 \<lparr>data = [20, 28, 20, 28, 43, 31, 20, 31, 24], width = 3, height = 3,
                    lineStride = 3\<rparr> 2 3 True]\<rparr>"
  have run: "drawForImage (\<lambda>f d. bitmap d) ?s [?src] ?g (Some 0) = Some ([?src, ?copy], ?g')"
    by code_simp
  have h: "\<bar>radius ?s\<bar> \<le> 16777216" "\<bar>fst (offset ?s)\<bar> \<le> 16777216"
    "\<bar>snd (offset ?s)\<bar> \<le> 16777216" "(\<lambda>c a. c) (colour ?s) f_1_0 = colour ?s"
    by simp_all
  from applyEffect_at_unit_scale_and_alpha [of ?s "\<lambda>c a. c", OF h]
  have "applyEffect (\<lambda>c a. c) (\<lambda>f d. bitmap d) ?s [?src] ?g (Some 0) f_1_0 f_1_0 =
     (case drawForImage (\<lambda>f d. bitmap d) ?s [?src] ?g (Some 0) of None \<Rightarrow> None
      | Some (hp', g') \<Rightarrow>
          Some (hp', drawImageAt (setOpacity g' f_1_0) hp' (Some 0) 0 0 False))" .
  then show ?thesis
    by (simp only: run option.case prod.case)
       (simp add: drawImageAt_def setOpacity_def)
qed

text \<open>
  Claim C5 as it is worded, for every stored shadow, fails where the conversion
  \<open>(float) s.offset.x\<close> rounds: \<open>16777217 = 2^24 + 1\<close> is not a \<open>float\<close>, and
  \<open>roundToInt ((float) 16777217 * 1.0f)\<close> is \<open>16777216\<close>. With a scale factor of 1.0 and
  an alpha of 1.0 the effect draws the shadow one pixel to the left of where
  \<open>drawForImage\<close> of the stored shadow draws it.
\<close>

theorem applyEffect_at_unit_scale_counterexample:
  "applyEffect (\<lambda>c a. c) (\<lambda>f d. bitmap d)
       \<lparr>colour = 4278190080 :: uint32, radius = 1, offset = (16777217, 0)\<rparr>
       [\<lparr>pixelFormat = SingleChannel,
          bitmap = \<lparr>data = [90, 0, 0, 0, 255, 0, 0, 0, 200], width = 3, height = 3,
                     lineStride = 3\<rparr>,
          referenceCount = 2\<rparr>]
       \<lparr>getClipBounds = \<lparr>getX = 0, getY = 0, getWidth = 10, getHeight = 10\<rparr>,
          calls = []\<rparr>
       (Some 0) f_1_0 f_1_0
     = Some
        ([\<lparr>pixelFormat = SingleChannel,
            bitmap = \<lparr>data = [90, 0, 0, 0, 255, 0, 0, 0, 200], width = 3, height = 3,
                       lineStride = 3\<rparr>,
            referenceCount = 2\<rparr>,
          \<lparr>pixelFormat = SingleChannel,
            bitmap = \<lparr>data = [20, 28, 20, 28, 43, 31, 20, 31, 24], width = 3, height = 3,
                       lineStride = 3\<rparr>,
            referenceCount = 0\<rparr>],
         \<lparr>getClipBounds = \<lparr>getX = 0, getY = 0, getWidth = 10, getHeight = 10\<rparr>,
            calls =
              [SetColour 4278190080,
               DrawImageAt
                 \<lparr>data = [20, 28, 20, 28, 43, 31, 20, 31, 24], width = 3, height = 3,
                    lineStride = 3\<rparr> 16777216 0 True,
               SetOpacity f_1_0,
               DrawImageAt
                 \<lparr>data = [90, 0, 0, 0, 255, 0, 0, 0, 200], width = 3, height = 3,
                    lineStride = 3\<rparr> 0 0 False]\<rparr>)
   \<and> drawForImage (\<lambda>f d. bitmap d)
       \<lparr>colour = 4278190080 :: uint32, radius = 1, offset = (16777217, 0)\<rparr>
       [\<lparr>pixelFormat = SingleChannel,
          bitmap = \<lparr>data = [90, 0, 0, 0, 255, 0, 0, 0, 200], width = 3, height = 3,
                     lineStride = 3\<rparr>,
          referenceCount = 2\<rparr>]
       \<lparr>getClipBounds = \<lparr>getX = 0, getY = 0, getWidth = 10, getHeight = 10\<rparr>,
          calls = []\<rparr>
       (Some 0)
     = Some
        ([\<lparr>pixelFormat = SingleChannel,
            bitmap = \<lparr>data = [90, 0, 0, 0, 255, 0, 0, 0, 200], width = 3, height = 3,
                       lineStride = 3\<rparr>,
            referenceCount = 2\<rparr>,
          \<lparr>pixelFormat = SingleChannel,
            bitmap = \<lparr>data = [20, 28, 20, 28, 43, 31, 20, 31, 24], width = 3, height = 3,
                       lineStride = 3\<rparr>,
            referenceCount = 0\<rparr>],
         \<lparr>getClipBounds = \<lparr>getX = 0, getY = 0, getWidth = 10, getHeight = 10\<rparr>,
            calls =
              [SetColour 4278190080,
               DrawImageAt
                 \<lparr>data = [20, 28, 20, 28, 43, 31, 20, 31, 24], width = 3, height = 3,
                    lineStride = 3\<rparr> 16777217 0 True]\<rparr>)"
  by code_simp

section \<open>Claims about drawForRectangle: the nine sections\<close>

lemma roundTo_exact:
  "- 16777216 < m \<Longrightarrow> m < 16777216 \<Longrightarrow>
     roundTo 24 \<lparr>mantissa = m, exponent = e\<rparr> = \<lparr>mantissa = m, exponent = e\<rparr>"
  by (rule roundTo_small) simp

lemma ofInt_exact:
  "- 16777216 < n \<Longrightarrow> n < 16777216 \<Longrightarrow> ofInt 24 n = \<lparr>mantissa = n, exponent = 0\<rparr>"
  by (simp add: ofInt_def roundTo_exact)

lemma drawForRectangle_area_exact:
  assumes "0 \<le> radius s" "radius s < 1048576"
    and "\<bar>getX t\<bar> < 1048576" "\<bar>getY t\<bar> < 1048576"
    and "\<bar>fst (offset s)\<bar> < 1048576" "\<bar>snd (offset s)\<bar> < 1048576"
    and "radius s < getWidth t" "getWidth t < 1048576"
    and "radius s < getHeight t" "getHeight t < 1048576"
  shows "drawForRectangle_area s t =
     \<lparr>posX = \<lparr>mantissa = 2 * getX t + radius s + 2 * fst (offset s), exponent = - 1\<rparr>,
      posY = \<lparr>mantissa = 2 * getY t + radius s + 2 * snd (offset s), exponent = - 1\<rparr>,
      rectW = \<lparr>mantissa = 2 * getWidth t - 2 * radius s, exponent = - 1\<rparr>,
      rectH = \<lparr>mantissa = 2 * getHeight t - 2 * radius s, exponent = - 1\<rparr>\<rparr>"
  using assms
  apply (simp add: drawForRectangle_area_def Let_def toFloat_def ofInt_exact fhalf_def
      reducedF_def expandedF_def fneg_def translatedF_def)
  apply (simp add: fadd_def fsub_def fmul_def scaled_def f_2_0_def Let_def roundTo_exact jmax_def fless_def f_0_0_def)
  done

lemma expandedRadius_exact:
  assumes "0 \<le> r" "r < 1048576"
  shows "fadd 24 (ofInt 24 r) (fhalf (ofInt 24 r)) = \<lparr>mantissa = 3 * r, exponent = - 1\<rparr>"
  using assms
  by (simp add: ofInt_exact fhalf_def fadd_def scaled_def Let_def roundTo_exact)

lemma fadd_halves:
  "- 16777216 < m + n \<Longrightarrow> m + n < 16777216 \<Longrightarrow> fadd 24 (halves m) (halves n) = halves (m + n)"
  by (simp add: fadd_def scaled_def roundTo_exact)

lemma fsub_halves:
  "- 16777216 < m - n \<Longrightarrow> m - n < 16777216 \<Longrightarrow> fsub 24 (halves m) (halves n) = halves (m - n)"
  by (simp add: fsub_def scaled_def roundTo_exact)

lemma jmin_halves: "jmin (halves m) (halves n) = halves (min m n)"
  by (simp add: jmin_def fless_def scaled_def min_def)

lemma removeFromTop_exact:
  assumes "0 \<le> e" "e \<le> h" "h < 16777216" "- 16777216 < y + e" "y + e < 16777216"
  shows "removeFromTop \<lparr>posX = px, posY = halves y, rectW = pw, rectH = halves h\<rparr> (halves e) =
     (\<lparr>posX = px, posY = halves y, rectW = pw, rectH = halves e\<rparr>,
      \<lparr>posX = px, posY = halves (y + e), rectW = pw, rectH = halves (h - e)\<rparr>)"
  using assms by (simp add: removeFromTop_def jmin_halves fadd_halves fsub_halves)

lemma removeFromLeft_exact:
  assumes "0 \<le> e" "e \<le> w" "w < 16777216" "- 16777216 < x + e" "x + e < 16777216"
  shows "removeFromLeft \<lparr>posX = halves x, posY = py, rectW = halves w, rectH = ph\<rparr> (halves e) =
     (\<lparr>posX = halves x, posY = py, rectW = halves e, rectH = ph\<rparr>,
      \<lparr>posX = halves (x + e), posY = py, rectW = halves (w - e), rectH = ph\<rparr>)"
  using assms by (simp add: removeFromLeft_def jmin_halves fadd_halves fsub_halves)

lemma removeFromBottom_exact:
  assumes "0 \<le> e" "e \<le> h" "h < 16777216" "- 16777216 < y" "y + h < 16777216"
  shows "removeFromBottom \<lparr>posX = px, posY = halves y, rectW = pw, rectH = halves h\<rparr> (halves e) =
     (\<lparr>posX = px, posY = halves (y + h - e), rectW = pw, rectH = halves e\<rparr>,
      \<lparr>posX = px, posY = halves y, rectW = pw, rectH = halves (h - e)\<rparr>)"
  using assms by (simp add: removeFromBottom_def Let_def jmin_halves fadd_halves fsub_halves)

lemma removeFromRight_exact:
  assumes "0 \<le> e" "e \<le> w" "w < 16777216" "- 16777216 < x" "x + w < 16777216"
  shows "removeFromRight \<lparr>posX = halves x, posY = py, rectW = halves w, rectH = ph\<rparr> (halves e) =
     (\<lparr>posX = halves (x + w - e), posY = py, rectW = halves e, rectH = ph\<rparr>,
      \<lparr>posX = halves x, posY = py, rectW = halves (w - e), rectH = ph\<rparr>)"
  using assms by (simp add: removeFromRight_def Let_def jmin_halves fadd_halves fsub_halves)


lemma expandedF_exact:
  assumes "0 \<le> e" "0 < w + 2 * e" "0 < h + 2 * e"
    and "- 16777216 < x - e" "x - e < 16777216" "- 16777216 < y - e" "y - e < 16777216"
    and "w + 2 * e < 16777216" "h + 2 * e < 16777216" "2 * e < 16777216"
  shows "expandedF \<lparr>posX = halves x, posY = halves y, rectW = halves w, rectH = halves h\<rparr>
           (halves e) =
     \<lparr>posX = halves (x - e), posY = halves (y - e),
      rectW = halves (w + 2 * e), rectH = halves (h + 2 * e)\<rparr>"
proof -
  have m: "fmul 24 (halves e) f_2_0 = halves (2 * e)"
    using assms by (simp add: fmul_def f_2_0_def roundTo_exact)
  have j: "jmax f_0_0 (halves n) = halves n" if "0 < n" for n
    using that by (simp add: jmax_def fless_def f_0_0_def scaled_def)
  show ?thesis
    using assms by (simp add: expandedF_def m fadd_halves fsub_halves j)
qed

lemma drawForRectangle_sections_exact:
  assumes "0 \<le> radius s" "radius s < 1048576"
    and "\<bar>getX t\<bar> < 1048576" "\<bar>getY t\<bar> < 1048576"
    and "\<bar>fst (offset s)\<bar> < 1048576" "\<bar>snd (offset s)\<bar> < 1048576"
    and "radius s < getWidth t" "getWidth t < 1048576"
    and "radius s < getHeight t" "getHeight t < 1048576"
  defines "x \<equiv> 2 * getX t + radius s + 2 * fst (offset s)"
    and "y \<equiv> 2 * getY t + radius s + 2 * snd (offset s)"
    and "w \<equiv> 2 * getWidth t - 2 * radius s"
    and "h \<equiv> 2 * getHeight t - 2 * radius s"
    and "e \<equiv> 3 * radius s"
  shows "drawForRectangle_expanded s t =
           \<lparr>posX = halves (x - e), posY = halves (y - e),
            rectW = halves (w + 2 * e), rectH = halves (h + 2 * e)\<rparr>"
    and "drawForRectangle_sections s t =
         [\<lparr>posX = halves (x - e), posY = halves (y - e), rectW = halves e, rectH = halves e\<rparr>,
          \<lparr>posX = halves (x + w), posY = halves (y - e), rectW = halves e, rectH = halves e\<rparr>,
          \<lparr>posX = halves x, posY = halves (y - e), rectW = halves w, rectH = halves e\<rparr>,
          \<lparr>posX = halves (x - e), posY = halves (y + h), rectW = halves e, rectH = halves e\<rparr>,
          \<lparr>posX = halves (x + w), posY = halves (y + h), rectW = halves e, rectH = halves e\<rparr>,
          \<lparr>posX = halves x, posY = halves (y + h), rectW = halves w, rectH = halves e\<rparr>,
          \<lparr>posX = halves (x - e), posY = halves y, rectW = halves e, rectH = halves h\<rparr>,
          \<lparr>posX = halves (x + w), posY = halves y, rectW = halves e, rectH = halves h\<rparr>,
          \<lparr>posX = halves x, posY = halves y, rectW = halves w, rectH = halves h\<rparr>]"
proof -
  have b: "0 \<le> e" "e < 3145728" "- 5242880 < x" "x < 5242880" "- 5242880 < y" "y < 5242880"
    "0 < w" "w < 2097152" "0 < h" "h < 2097152"
    using assms(1-10) by (simp_all add: x_def y_def w_def h_def e_def)
  have area: "drawForRectangle_area s t =
      \<lparr>posX = halves x, posY = halves y, rectW = halves w, rectH = halves h\<rparr>"
    unfolding x_def y_def w_def h_def by (rule drawForRectangle_area_exact [OF assms(1-10)])
  have er: "fadd 24 (ofInt 24 (radius s)) (fhalf (ofInt 24 (radius s))) = halves e"
    unfolding e_def by (rule expandedRadius_exact [OF assms(1,2)])
  have r0: "expandedF \<lparr>posX = halves x, posY = halves y, rectW = halves w, rectH = halves h\<rparr>
           (halves e) =
     \<lparr>posX = halves (x - e), posY = halves (y - e),
      rectW = halves (w + 2 * e), rectH = halves (h + 2 * e)\<rparr>"
    using b by (intro expandedF_exact) simp_all
  show "drawForRectangle_expanded s t =
           \<lparr>posX = halves (x - e), posY = halves (y - e),
            rectW = halves (w + 2 * e), rectH = halves (h + 2 * e)\<rparr>"
    by (simp only: drawForRectangle_expanded_def Let_def er area r0)
  have top: "removeFromTop \<lparr>posX = halves (x - e), posY = halves (y - e),
      rectW = halves (w + 2 * e), rectH = halves (h + 2 * e)\<rparr> (halves e) =
     (\<lparr>posX = halves (x - e), posY = halves (y - e), rectW = halves (w + 2 * e),
        rectH = halves e\<rparr>,
      \<lparr>posX = halves (x - e), posY = halves y, rectW = halves (w + 2 * e),
        rectH = halves (h + e)\<rparr>)"
    using b by (simp add: removeFromTop_exact)
  have bottom: "removeFromBottom \<lparr>posX = halves (x - e), posY = halves y,
        rectW = halves (w + 2 * e), rectH = halves (h + e)\<rparr> (halves e) =
     (\<lparr>posX = halves (x - e), posY = halves (y + h), rectW = halves (w + 2 * e),
        rectH = halves e\<rparr>,
      \<lparr>posX = halves (x - e), posY = halves y, rectW = halves (w + 2 * e),
        rectH = halves h\<rparr>)"
    using b by (simp add: removeFromBottom_exact)
  have left: "removeFromLeft \<lparr>posX = halves (x - e), posY = py, rectW = halves (w + 2 * e),
        rectH = ph\<rparr> (halves e) =
     (\<lparr>posX = halves (x - e), posY = py, rectW = halves e, rectH = ph\<rparr>,
      \<lparr>posX = halves x, posY = py, rectW = halves (w + e), rectH = ph\<rparr>)" for py ph
    using b by (simp add: removeFromLeft_exact)
  have right: "removeFromRight \<lparr>posX = halves x, posY = py, rectW = halves (w + e),
        rectH = ph\<rparr> (halves e) =
     (\<lparr>posX = halves (x + w), posY = py, rectW = halves e, rectH = ph\<rparr>,
      \<lparr>posX = halves x, posY = py, rectW = halves w, rectH = ph\<rparr>)" for py ph
    using b by (simp add: removeFromRight_exact)
  show "drawForRectangle_sections s t =
         [\<lparr>posX = halves (x - e), posY = halves (y - e), rectW = halves e, rectH = halves e\<rparr>,
          \<lparr>posX = halves (x + w), posY = halves (y - e), rectW = halves e, rectH = halves e\<rparr>,
          \<lparr>posX = halves x, posY = halves (y - e), rectW = halves w, rectH = halves e\<rparr>,
          \<lparr>posX = halves (x - e), posY = halves (y + h), rectW = halves e, rectH = halves e\<rparr>,
          \<lparr>posX = halves (x + w), posY = halves (y + h), rectW = halves e, rectH = halves e\<rparr>,
          \<lparr>posX = halves x, posY = halves (y + h), rectW = halves w, rectH = halves e\<rparr>,
          \<lparr>posX = halves (x - e), posY = halves y, rectW = halves e, rectH = halves h\<rparr>,
          \<lparr>posX = halves (x + w), posY = halves y, rectW = halves e, rectH = halves h\<rparr>,
          \<lparr>posX = halves x, posY = halves y, rectW = halves w, rectH = halves h\<rparr>]"
    by (simp only: drawForRectangle_sections_def Let_def er area r0 top bottom left right
        prod.case)
qed


lemma covers_halves:
  "covers \<lparr>posX = halves a, posY = halves b, rectW = halves c, rectH = halves d\<rparr> p =
     (of_int a \<le> 2 * fst p \<and> 2 * fst p < of_int a + of_int c \<and>
      of_int b \<le> 2 * snd p \<and> 2 * snd p < of_int b + of_int d)"
  by (simp add: covers_def valueOf_def field_simps)

lemma one_of_three:
  fixes a c e u :: rat
  assumes "0 \<le> e" "0 \<le> c"
  shows "u < a - e \<or> (a - e \<le> u \<and> u < a) \<or> (a \<le> u \<and> u < a + c)
       \<or> (a + c \<le> u \<and> u < a + c + e) \<or> a + c + e \<le> u"
  by linarith

text \<open>
  Claim C3, as amended. For every radius from 1 and every target rectangle whose width
  and height both exceed twice the expanded radius, that is three times the radius,
  where the radius, the position and the size of the rectangle and the offset of the
  shadow are below \<open>2^20\<close> in absolute value (so that no operation on the floats
  rounds), \<open>drawForRectangle\<close> fills nine rectangles and they tile the inset and then
  expanded rectangle: every point of the plane inside it lies in exactly one of the
  nine, and every point outside it in none.
\<close>

theorem drawForRectangle_sections_tile:
  assumes "1 \<le> radius s" "radius s < 1048576"
    and "\<bar>getX t\<bar> < 1048576" "\<bar>getY t\<bar> < 1048576"
    and "\<bar>fst (offset s)\<bar> < 1048576" "\<bar>snd (offset s)\<bar> < 1048576"
    and "3 * radius s < getWidth t" "getWidth t < 1048576"
    and "3 * radius s < getHeight t" "getHeight t < 1048576"
  shows "length (drawForRectangle_sections s t) = 9 \<and>
     length (covering (drawForRectangle_sections s t) p) =
       (if covers (drawForRectangle_expanded s t) p then 1 else 0)"
proof -
  define x y w h e where "x = 2 * getX t + radius s + 2 * fst (offset s)"
    and "y = 2 * getY t + radius s + 2 * snd (offset s)"
    and "w = 2 * getWidth t - 2 * radius s"
    and "h = 2 * getHeight t - 2 * radius s"
    and "e = 3 * radius s"
  have a: "0 \<le> radius s" "radius s < getWidth t" "radius s < getHeight t"
    using assms by simp_all
  note ex = drawForRectangle_sections_exact
      [OF a(1) assms(2) assms(3) assms(4) assms(5) assms(6) a(2) assms(8) a(3) assms(10),
       folded x_def y_def w_def h_def e_def]
  define u v where "u = 2 * fst p" and "v = 2 * snd p"
  define xr yr wr hr er :: rat where "xr = of_int x" and "yr = of_int y"
    and "wr = of_int w" and "hr = of_int h" and "er = of_int e"
  have pos: "0 \<le> er" "0 \<le> wr" "0 \<le> hr"
    using assms by (simp_all add: er_def wr_def hr_def e_def w_def h_def)
  have cu: "u < xr - er \<or> (xr - er \<le> u \<and> u < xr) \<or> (xr \<le> u \<and> u < xr + wr)
       \<or> (xr + wr \<le> u \<and> u < xr + wr + er) \<or> xr + wr + er \<le> u"
    by (rule one_of_three [OF pos(1,2)])
  have cv: "v < yr - er \<or> (yr - er \<le> v \<and> v < yr) \<or> (yr \<le> v \<and> v < yr + hr)
       \<or> (yr + hr \<le> v \<and> v < yr + hr + er) \<or> yr + hr + er \<le> v"
    by (rule one_of_three [OF pos(1,3)])
  have "length (covering (drawForRectangle_sections s t) p) =
       (if covers (drawForRectangle_expanded s t) p then 1 else 0)"
    unfolding ex covering_def
    apply (simp only: filter.simps covers_halves of_int_add of_int_diff of_int_mult of_int_numeral
        u_def [symmetric] v_def [symmetric] xr_def [symmetric] yr_def [symmetric]
        wr_def [symmetric] hr_def [symmetric] er_def [symmetric])
    using cu cv pos
    apply (elim disjE conjE)
    apply simp_all
    done
  moreover have "length (drawForRectangle_sections s t) = 9"
    unfolding ex by simp
  ultimately show ?thesis by simp
qed


text \<open>
  Claim C3, a concrete run of the theorem: a shadow of radius 1 at offset \<open>(2, 3)\<close> and
  the target rectangle of 30 by 40 pixels at \<open>(10, 20)\<close>. The point \<open>(12, 23)\<close> lies in
  exactly one of the nine rectangles, the point \<open>(10, 19)\<close>, outside the expanded
  rectangle, in none.
\<close>

theorem drawForRectangle_sections_tile_witness:
  "length (covering (drawForRectangle_sections \<lparr>colour = 4278190080 :: uint32, radius = 1, offset = (2, 3)\<rparr>
         \<lparr>getX = 10, getY = 20, getWidth = 30, getHeight = 40\<rparr>) (12, 23)) = 1
   \<and> length (covering (drawForRectangle_sections \<lparr>colour = 4278190080 :: uint32, radius = 1, offset = (2, 3)\<rparr>
         \<lparr>getX = 10, getY = 20, getWidth = 30, getHeight = 40\<rparr>) (10, 19)) = 0"
proof -
  let ?s = "\<lparr>colour = 4278190080 :: uint32, radius = 1, offset = (2, 3)\<rparr>"
  let ?t = "\<lparr>getX = 10, getY = 20, getWidth = 30, getHeight = 40\<rparr>"
  have h: "1 \<le> radius ?s" "radius ?s < 1048576" "\<bar>getX ?t\<bar> < 1048576" "\<bar>getY ?t\<bar> < 1048576"
    "\<bar>fst (offset ?s)\<bar> < 1048576" "\<bar>snd (offset ?s)\<bar> < 1048576"
    "3 * radius ?s < getWidth ?t" "getWidth ?t < 1048576"
    "3 * radius ?s < getHeight ?t" "getHeight ?t < 1048576"
    by simp_all
  have inside: "covers (drawForRectangle_expanded ?s ?t) (12, 23)"
    and outside: "\<not> covers (drawForRectangle_expanded ?s ?t) (10, 19)"
    by code_simp+
  from drawForRectangle_sections_tile [OF h, of "(12, 23)"]
    drawForRectangle_sections_tile [OF h, of "(10, 19)"]
  show ?thesis by (simp only: inside outside if_True if_False simp_thms)
qed

text \<open>
  Claim C3 as it is worded, for every target rectangle, fails where the floats round.
  With the radius 1 and a target rectangle of 100 by 100 pixels at \<open>(16777216, 0)\<close>
  the expanded rectangle starts at \<open>x = 16777214\<close>; the top left corner ends at
  \<open>16777215.5\<close>, which is not a float, and the top strip starts at \<open>16777216\<close>: the point
  \<open>(16777215.75, 0)\<close> of the expanded rectangle is in none of the nine rectangles. The
  top strip ends at \<open>16777315\<close> and the top right corner starts at \<open>16777314\<close>: the point
  \<open>(16777314.5, 0)\<close> is in both.
\<close>

theorem drawForRectangle_sections_tile_counterexample:
  "covers (drawForRectangle_expanded
        \<lparr>colour = 4278190080 :: uint32, radius = 1, offset = (0, 0)\<rparr>
        \<lparr>getX = 16777216, getY = 0, getWidth = 100, getHeight = 100\<rparr>) (67108863 / 4, 0)
   \<and> covering (drawForRectangle_sections
          \<lparr>colour = 4278190080 :: uint32, radius = 1, offset = (0, 0)\<rparr>
          \<lparr>getX = 16777216, getY = 0, getWidth = 100, getHeight = 100\<rparr>) (67108863 / 4, 0) = []
   \<and> length (covering (drawForRectangle_sections
          \<lparr>colour = 4278190080 :: uint32, radius = 1, offset = (0, 0)\<rparr>
          \<lparr>getX = 16777216, getY = 0, getWidth = 100, getHeight = 100\<rparr>) (33554629 / 2, 0)) = 2"
proof -
  let ?s = "\<lparr>colour = 4278190080 :: uint32, radius = 1, offset = (0, 0)\<rparr>"
  let ?t = "\<lparr>getX = 16777216, getY = 0, getWidth = 100, getHeight = 100\<rparr>"
  let ?l = "\<lparr>mantissa = 16777214, exponent = 0\<rparr>"
  let ?m = "\<lparr>mantissa = 16777216, exponent = 0\<rparr>"
  let ?a = "\<lparr>mantissa = 8388608, exponent = 1\<rparr>"
  let ?r = "\<lparr>mantissa = 8388657, exponent = 1\<rparr>"
  have er: "fadd 24 (ofInt 24 (radius ?s)) (fhalf (ofInt 24 (radius ?s))) = halves 3"
    by code_simp
  have area: "drawForRectangle_area ?s ?t =
      \<lparr>posX = ?a, posY = halves 1, rectW = halves 198, rectH = halves 198\<rparr>"
    by code_simp
  have r0: "expandedF \<lparr>posX = ?a, posY = halves 1, rectW = halves 198, rectH = halves 198\<rparr>
        (halves 3) =
      \<lparr>posX = ?l, posY = halves (- 2), rectW = halves 204, rectH = halves 204\<rparr>"
    by code_simp
  have ext: "drawForRectangle_expanded ?s ?t =
      \<lparr>posX = ?l, posY = halves (- 2), rectW = halves 204, rectH = halves 204\<rparr>"
    by (simp only: drawForRectangle_expanded_def Let_def er area r0)
  have top: "removeFromTop
        \<lparr>posX = ?l, posY = halves (- 2), rectW = halves 204, rectH = halves 204\<rparr> (halves 3) =
      (\<lparr>posX = ?l, posY = halves (- 2), rectW = halves 204, rectH = halves 3\<rparr>,
       \<lparr>posX = ?l, posY = halves 1, rectW = halves 204, rectH = halves 201\<rparr>)"
    by code_simp
  have bottom: "removeFromBottom
        \<lparr>posX = ?l, posY = halves 1, rectW = halves 204, rectH = halves 201\<rparr> (halves 3) =
      (\<lparr>posX = ?l, posY = halves 199, rectW = halves 204, rectH = halves 3\<rparr>,
       \<lparr>posX = ?l, posY = halves 1, rectW = halves 204, rectH = halves 198\<rparr>)"
    by code_simp
  have left: "removeFromLeft \<lparr>posX = ?l, posY = py, rectW = halves 204, rectH = ph\<rparr>
        (halves 3) =
      (\<lparr>posX = ?l, posY = py, rectW = halves 3, rectH = ph\<rparr>,
       \<lparr>posX = ?m, posY = py, rectW = halves 201, rectH = ph\<rparr>)" for py ph
    by (simp add: removeFromLeft_def jmin_halves fsub_halves)
      (simp add: fadd_def scaled_def roundTo_def excessBits.simps roundHalfEven_def)
  have right: "removeFromRight \<lparr>posX = ?m, posY = py, rectW = halves 201, rectH = ph\<rparr>
        (halves 3) =
      (\<lparr>posX = ?r, posY = py, rectW = halves 3, rectH = ph\<rparr>,
       \<lparr>posX = ?m, posY = py, rectW = halves 198, rectH = ph\<rparr>)" for py ph
    by (simp add: removeFromRight_def Let_def jmin_halves fsub_halves)
      (simp add: fadd_def fsub_def scaled_def roundTo_def excessBits.simps roundHalfEven_def)
  have secs: "drawForRectangle_sections ?s ?t =
     [\<lparr>posX = ?l, posY = halves (- 2), rectW = halves 3, rectH = halves 3\<rparr>,
      \<lparr>posX = ?r, posY = halves (- 2), rectW = halves 3, rectH = halves 3\<rparr>,
      \<lparr>posX = ?m, posY = halves (- 2), rectW = halves 198, rectH = halves 3\<rparr>,
      \<lparr>posX = ?l, posY = halves 199, rectW = halves 3, rectH = halves 3\<rparr>,
      \<lparr>posX = ?r, posY = halves 199, rectW = halves 3, rectH = halves 3\<rparr>,
      \<lparr>posX = ?m, posY = halves 199, rectW = halves 198, rectH = halves 3\<rparr>,
      \<lparr>posX = ?l, posY = halves 1, rectW = halves 3, rectH = halves 198\<rparr>,
      \<lparr>posX = ?r, posY = halves 1, rectW = halves 3, rectH = halves 198\<rparr>,
      \<lparr>posX = ?a, posY = halves 1, rectW = halves 198, rectH = halves 198\<rparr>]"
    by (simp only: drawForRectangle_sections_def Let_def er area r0 top bottom left right
        prod.case)
  show ?thesis
    unfolding ext secs by (simp add: covering_def covers_def valueOf_def)
qed

end
